theory Spec2Isabelle
  imports Complex_Main "HOL-Library.Multiset"
begin

section \<open>Render-cause classifier (analyze-profile: summarizeChangeDescription)\<close>

text \<open>
  A change description of the export. The four changed-sets are arrays when present; a
  field that is absent, null or not an array is \<open>None\<close> (the source tests
  \<^verbatim>\<open>Array.isArray\<close>). The two flags are compared with \<^verbatim>\<open>=== true\<close>, so they are
  booleans here. The keys of a changed-set are strings (props, state, context) or hook
  indices.
\<close>

datatype changedKey = KeyName string | KeyIndex int

record changeDescription =
  isFirstMount :: bool
  cd_props :: "changedKey list option"
  cd_state :: "changedKey list option"
  cd_context :: "changedKey list option"
  cd_hooks :: "changedKey list option"
  didHooksChange :: bool

text \<open>\<^verbatim>\<open>Array.isArray(v) && v.length > 0\<close>\<close>

definition nonEmptyArray :: "changedKey list option \<Rightarrow> bool" where
  "nonEmptyArray v = (case v of None \<Rightarrow> False | Some ks \<Rightarrow> 0 < length ks)"

text \<open>\<^verbatim>\<open>reasons.join("+")\<close>\<close>

fun joinPlus :: "string list \<Rightarrow> string" where
  "joinPlus [] = []"
| "joinPlus [r] = r"
| "joinPlus (r # rs) = r @ ''+'' @ joinPlus rs"

text \<open>\<^verbatim>\<open>if (c) reasons.push(r)\<close>\<close>

definition pushIf :: "bool \<Rightarrow> string \<Rightarrow> string list \<Rightarrow> string list" where
  "pushIf c r reasons = (if c then reasons @ [r] else reasons)"

text \<open>
  The argument is \<open>None\<close> when the change description is missing or not an object; the
  result \<open>None\<close> is the source's \<^verbatim>\<open>null\<close>.
\<close>

definition summarizeChangeDescription :: "changeDescription option \<Rightarrow> string option" where
  "summarizeChangeDescription changeDescription =
     (case changeDescription of
        None \<Rightarrow> None
      | Some cd \<Rightarrow>
          (let reasons = [];
               reasons = pushIf (isFirstMount cd) ''mount'' reasons;
               reasons = pushIf (nonEmptyArray (cd_props cd)) ''props'' reasons;
               reasons = pushIf (nonEmptyArray (cd_state cd)) ''state'' reasons;
               reasons = pushIf (nonEmptyArray (cd_context cd)) ''context'' reasons;
               reasons = pushIf (nonEmptyArray (cd_hooks cd)) ''hooks'' reasons;
               reasons = pushIf (didHooksChange cd \<and> ''hooks'' \<notin> set reasons) ''hooks'' reasons
           in if reasons = [] then Some ''unknown'' else Some (joinPlus reasons)))"

text \<open>
  The categories other than the mount, in the order of the source: a category is listed
  when its changed-set is a non-empty array; hooks is listed as well when the
  \<^verbatim>\<open>didHooksChange\<close> flag is set.
\<close>

definition changedCategories :: "changeDescription \<Rightarrow> string list" where
  "changedCategories cd =
     (if nonEmptyArray (cd_props cd) then [''props''] else []) @
     (if nonEmptyArray (cd_state cd) then [''state''] else []) @
     (if nonEmptyArray (cd_context cd) then [''context''] else []) @
     (if nonEmptyArray (cd_hooks cd) \<or> didHooksChange cd then [''hooks''] else [])"

section \<open>Cadence detector (analyze-profile: median, round, summarizeCadence)\<close>


text \<open>
  \<^verbatim>\<open>Math.round(num * factor) / factor\<close>; \<^verbatim>\<open>Math.round\<close> rounds a half upwards. The
  argument is finite, so the guard on \<^verbatim>\<open>Number.isFinite\<close> is passed.
\<close>

definition round_num :: "real \<Rightarrow> nat \<Rightarrow> real" where
  "round_num num digits =
     (let factor = 10 ^ digits in of_int \<lfloor>num * factor + 1 / 2\<rfloor> / factor)"

record cadenceSummary =
  samples :: nat
  medianDeltaMs :: "real option"
  regularity :: "real option"
  likelyIntervalChurn :: bool








section \<open>Comparator (compare-profiles: compareReports)\<close>

text \<open>
  The fields of a report that the verdict reads. A total is \<open>None\<close> when the field is
  absent or null (\<^verbatim>\<open>Number(x ?? 0)\<close> is then 0) and a finite number otherwise, as a
  report read from JSON has it. The verdict reads the cadence of a report as
  \<^verbatim>\<open>cadence?.likelyIntervalChurn === true\<close>; \<open>None\<close> is a report without cadence.
\<close>

record report =
  reactTimeMs :: "real option"
  reactComponentTrackEvents :: "real option"
  cadence :: "cadenceSummary option"

definition churnOf :: "report \<Rightarrow> bool" where
  "churnOf r = (case cadence r of None \<Rightarrow> False | Some c \<Rightarrow> likelyIntervalChurn c)"

definition numberOr0 :: "real option \<Rightarrow> real" where
  "numberOr0 v = (case v of None \<Rightarrow> 0 | Some x \<Rightarrow> x)"

definition hasDurationSignal :: "report \<Rightarrow> report \<Rightarrow> bool" where
  "hasDurationSignal before after =
     (0 < numberOr0 (reactTimeMs before) \<or> 0 < numberOr0 (reactTimeMs after))"

definition beforePrimary :: "report \<Rightarrow> report \<Rightarrow> real" where
  "beforePrimary before after =
     (if hasDurationSignal before after then numberOr0 (reactTimeMs before)
      else numberOr0 (reactComponentTrackEvents before))"

definition afterPrimary :: "report \<Rightarrow> report \<Rightarrow> real" where
  "afterPrimary before after =
     (if hasDurationSignal before after then numberOr0 (reactTimeMs after)
      else numberOr0 (reactComponentTrackEvents after))"

definition compareReports_verdict :: "report \<Rightarrow> report \<Rightarrow> string" where
  "compareReports_verdict before after =
     (let cadenceBefore = churnOf before;
          cadenceAfter = churnOf after;
          primaryImproved = (afterPrimary before after < beforePrimary before after);
          primaryRegressed = (afterPrimary before after > beforePrimary before after);
          cadenceImproved = (\<not> cadenceBefore \<or> (cadenceBefore \<and> \<not> cadenceAfter));
          cadenceRegressed = (\<not> cadenceBefore \<and> cadenceAfter)
      in if primaryImproved \<and> cadenceImproved then ''improved''
         else if primaryRegressed \<or> cadenceRegressed then ''regressed''
         else ''mixed'')"

text \<open>Two cadence summaries for examples: a one-second interval, and too few samples.\<close>

definition churning :: cadenceSummary where
  "churning = \<lparr>samples = 10, medianDeltaMs = Some 1000, regularity = Some 1,
                likelyIntervalChurn = True\<rparr>"

definition steady :: cadenceSummary where
  "steady = \<lparr>samples = 2, medianDeltaMs = None, regularity = None,
              likelyIntervalChurn = False\<rparr>"

text \<open>The words of the specification: churn newly appeared, churn got resolved.\<close>

definition churnNewlyAppeared :: "report \<Rightarrow> report \<Rightarrow> bool" where
  "churnNewlyAppeared before after = (\<not> churnOf before \<and> churnOf after)"

definition churnResolved :: "report \<Rightarrow> report \<Rightarrow> bool" where
  "churnResolved before after = (churnOf before \<and> \<not> churnOf after)"

definition primaryDecreased :: "report \<Rightarrow> report \<Rightarrow> bool" where
  "primaryDecreased before after = (afterPrimary before after < beforePrimary before after)"

definition primaryIncreased :: "report \<Rightarrow> report \<Rightarrow> bool" where
  "primaryIncreased before after = (beforePrimary before after < afterPrimary before after)"

section \<open>Commit duration (analyze-profile: pickNumber, normalizePairEntries, sumNumericArray)\<close>

text \<open>
  The JSON values that the duration maps of a commit are made of: a finite number, an
  array, or \<open>JOther\<close>, which stands for a value that is neither and that \<^verbatim>\<open>Number\<close>
  converts to NaN, also as the only element of an array: an object, a non-numeric
  string, and at the place of a whole field its absence.
\<close>

datatype jv = JNum real | JArr "jv list" | JOther

text \<open>
  \<^verbatim>\<open>Number(v)\<close> when the result is finite, otherwise \<open>None\<close>. An array converts through
  its string: the empty array to 0, a one-element array as its element, a longer one to
  NaN.
\<close>

fun toNumber :: "jv \<Rightarrow> real option" where
  "toNumber (JNum r) = Some r"
| "toNumber JOther = None"
| "toNumber (JArr []) = Some 0"
| "toNumber (JArr [x]) = toNumber x"
| "toNumber (JArr (x # y # zs)) = None"

text \<open>
  The loop of \<^verbatim>\<open>normalizePairEntries\<close> over the items of an array: an item that is an
  array of at least two elements is a pair (kept when its key converts to a finite
  number); otherwise the item and its successor form a pair when both convert to finite
  numbers, and the successor is skipped.
\<close>

fun pairEntries :: "jv list \<Rightarrow> (real \<times> jv) list" where
  "pairEntries [] = []"
| "pairEntries (JArr (k # v # others) # rest) =
     (case toNumber k of
        Some keyNum \<Rightarrow> (keyNum, v) # pairEntries rest
      | None \<Rightarrow> pairEntries rest)"
| "pairEntries [item] = []"
| "pairEntries (item # next # rest) =
     (case (toNumber item, toNumber next) of
        (Some a, Some b) \<Rightarrow> (a, JNum b) # pairEntries rest
      | _ \<Rightarrow> pairEntries (next # rest))"

definition normalizePairEntries :: "jv \<Rightarrow> (real \<times> jv) list" where
  "normalizePairEntries v = (case v of JArr items \<Rightarrow> pairEntries items | _ \<Rightarrow> [])"

text \<open>\<^verbatim>\<open>Number.isFinite(v) ? v : 0\<close>, which does not convert: only a number counts.\<close>

definition finiteOr0 :: "jv \<Rightarrow> real" where
  "finiteOr0 v = (case v of JNum r \<Rightarrow> r | _ \<Rightarrow> 0)"

definition sumNumericArray :: "jv \<Rightarrow> real" where
  "sumNumericArray v = (case v of JArr items \<Rightarrow> sum_list (map finiteOr0 items) | _ \<Rightarrow> 0)"

text \<open>
  A commit record. The three duration fields are \<open>None\<close> when absent or not a finite
  number (\<^verbatim>\<open>pickNumber\<close> tests \<^verbatim>\<open>Number.isFinite\<close> without converting).
\<close>

record commitData =
  duration :: "real option"
  actualDuration :: "real option"
  commitDuration :: "real option"
  fiberSelfDurations :: jv
  fiberActualDurations :: jv

fun pickNumber :: "real option list \<Rightarrow> real option" where
  "pickNumber [] = None"
| "pickNumber (Some v # others) = Some v"
| "pickNumber (None # others) = pickNumber others"

text \<open>The value of \<^verbatim>\<open>durationMs\<close> after the fallbacks; \<open>None\<close> is \<^verbatim>\<open>null\<close>.\<close>

definition resolveDurationMs :: "commitData \<Rightarrow> real option" where
  "resolveDurationMs commit =
     (case pickNumber [duration commit, actualDuration commit, commitDuration commit] of
        Some d \<Rightarrow> Some d
      | None \<Rightarrow>
          (let fiberSelfTotal =
                 foldl (\<lambda>total pair. total + finiteOr0 (snd pair)) 0
                   (normalizePairEntries (fiberSelfDurations commit))
           in if fiberSelfTotal > 0 then Some fiberSelfTotal
              else (let fiberActual = sumNumericArray (fiberActualDurations commit)
                    in if fiberActual > 0 then Some fiberActual else None)))"

text \<open>The \<^verbatim>\<open>durationMs\<close> of the commit in the report.\<close>

definition commitDurationMs :: "commitData \<Rightarrow> real" where
  "commitDurationMs commit =
     round_num (case resolveDurationMs commit of Some d \<Rightarrow> d | None \<Rightarrow> 0) 2"

text \<open>
  The sum of the per-fiber actual durations of a commit, over the same pair entries that the
  analysis reads them from (\<^verbatim>\<open>toPairMap(commit.fiberActualDurations)\<close>).
\<close>

definition actualDurationsTotal :: "commitData \<Rightarrow> real" where
  "actualDurationsTotal commit =
     foldl (\<lambda>total pair. total + finiteOr0 (snd pair)) 0
       (normalizePairEntries (fiberActualDurations commit))"

section \<open>Hotspot list (analyze-profile: analyzeReactDevtoolsExport, hotspots)\<close>

text \<open>
  \<^verbatim>\<open>Array.prototype.sort\<close> with a comparator is a stable sort: an element goes before the
  first element that the comparator does not put in front of it.
\<close>

fun insertBy :: "('a \<Rightarrow> 'a \<Rightarrow> real) \<Rightarrow> 'a \<Rightarrow> 'a list \<Rightarrow> 'a list" where
  "insertBy cmp x [] = [x]"
| "insertBy cmp x (y # ys) = (if cmp x y \<le> 0 then x # y # ys else y # insertBy cmp x ys)"

definition sortBy :: "('a \<Rightarrow> 'a \<Rightarrow> real) \<Rightarrow> 'a list \<Rightarrow> 'a list" where
  "sortBy cmp xs = foldr (insertBy cmp) xs []"

text \<open>One value of \<^verbatim>\<open>hotspotMap\<close>: the totals of a component name over all commits.\<close>

record hotspotAggregate =
  agg_name :: string
  agg_count :: nat
  agg_totalMs :: real
  agg_totalSelfMs :: real
  agg_totalSubtreeMs :: real
  agg_reasonCounts :: "(string \<times> nat) list"

record hotspot =
  hs_name :: string
  hs_count :: nat
  hs_totalMs :: real
  hs_avgMs :: real
  hs_selfMs :: real
  hs_avgSelfMs :: real
  hs_subtreeMs :: real
  hs_avgSubtreeMs :: real
  hs_topReasons :: "(string \<times> nat) list"

definition toHotspot :: "hotspotAggregate \<Rightarrow> hotspot" where
  "toHotspot h =
     \<lparr>hs_name = agg_name h,
      hs_count = agg_count h,
      hs_totalMs = round_num (agg_totalMs h) 2,
      hs_avgMs = round_num (agg_totalMs h / real (max 1 (agg_count h))) 2,
      hs_selfMs = round_num (agg_totalSelfMs h) 2,
      hs_avgSelfMs = round_num (agg_totalSelfMs h / real (max 1 (agg_count h))) 2,
      hs_subtreeMs = round_num (agg_totalSubtreeMs h) 2,
      hs_avgSubtreeMs = round_num (agg_totalSubtreeMs h / real (max 1 (agg_count h))) 2,
      hs_topReasons =
        take 3 (sortBy (\<lambda>a b. real (snd b) - real (snd a)) (agg_reasonCounts h))\<rparr>"

text \<open>The comparator of the hotspot list: total time descending, then count descending.\<close>

definition hotspotOrder :: "hotspot \<Rightarrow> hotspot \<Rightarrow> real" where
  "hotspotOrder a b =
     (if hs_totalMs b \<noteq> hs_totalMs a then hs_totalMs b - hs_totalMs a
      else real (hs_count b) - real (hs_count a))"

text \<open>The argument lists the values of \<^verbatim>\<open>hotspotMap\<close> in insertion order.\<close>

definition hotspots :: "hotspotAggregate list \<Rightarrow> hotspot list" where
  "hotspots hotspotMapValues = take 25 (sortBy hotspotOrder (map toHotspot hotspotMapValues))"

text \<open>The aggregates that the truncation leaves out of the report.\<close>

definition droppedHotspots :: "hotspotAggregate list \<Rightarrow> hotspot list" where
  "droppedHotspots hotspotMapValues =
     drop 25 (sortBy hotspotOrder (map toHotspot hotspotMapValues))"

text \<open>The comparator puts \<open>a\<close> before \<open>b\<close>, or ranks them equal.\<close>

definition ranksBefore :: "hotspot \<Rightarrow> hotspot \<Rightarrow> bool" where
  "ranksBefore a b = (hotspotOrder a b \<le> 0)"

text \<open>Twenty-six aggregates with distinct names and totals, for an example.\<close>

definition exampleAggregate :: "nat \<Rightarrow> hotspotAggregate" where
  "exampleAggregate i =
     \<lparr>agg_name = replicate i (CHR ''c''), agg_count = 1, agg_totalMs = real i,
      agg_totalSelfMs = real i, agg_totalSubtreeMs = real i, agg_reasonCounts = []\<rparr>"

section \<open>Edit-log decoder and tree model (analyze-profile: applyOperationsToCommitTree)\<close>

text \<open>
  An operations record is an array of integers, and fiber ids are integers. Reading the
  array beyond its end gives \<^verbatim>\<open>undefined\<close>, which \<^verbatim>\<open>Number\<close> turns into NaN: \<open>None\<close>
  here, so that \<^verbatim>\<open>Number.isFinite\<close> is the test for \<open>Some\<close>.
\<close>

definition opAt :: "int list \<Rightarrow> nat \<Rightarrow> int option" where
  "opAt operations i = (if i < length operations then Some (operations ! i) else None)"

text \<open>A string is the list of its UTF-16 code units.\<close>

type_synonym jsstring = "nat list"

text \<open>\<^verbatim>\<open>String.fromCodePoint\<close> throws a RangeError (\<open>None\<close>) outside of 0 .. 0x10FFFF.\<close>

definition fromCodePoint :: "int \<Rightarrow> jsstring option" where
  "fromCodePoint cp =
     (if cp < 0 \<or> cp > 1114111 then None
      else if cp < 65536 then Some [nat cp]
      else Some [nat (55296 + (cp - 65536) div 1024), nat (56320 + (cp - 65536) mod 1024)])"

fun decodeChars :: "int list \<Rightarrow> nat \<Rightarrow> nat \<Rightarrow> jsstring option" where
  "decodeChars operations startIndex 0 = Some []"
| "decodeChars operations startIndex (Suc n) =
     (case opAt operations startIndex of
        None \<Rightarrow> decodeChars operations (startIndex + 1) n
      | Some codePoint \<Rightarrow>
          (case fromCodePoint codePoint of
             None \<Rightarrow> None
           | Some units \<Rightarrow>
               (case decodeChars operations (startIndex + 1) n of
                  None \<Rightarrow> None
                | Some rest \<Rightarrow> Some (units @ rest))))"

definition decodeStringFromOperations :: "int list \<Rightarrow> nat \<Rightarrow> int \<Rightarrow> jsstring option" where
  "decodeStringFromOperations operations startIndex len =
     (if len \<le> 0 then Some [] else decodeChars operations startIndex (nat len))"

text \<open>
  The diagnostics of the decoder. Each constructor stands for one message text; the
  message of an unknown operation contains the code, so it is one message per code.
\<close>

datatype warning =
    InvalidStringTable
  | MalformedStringPayload
  | AddInvalidFiberId
  | RemoveInvalidLength
  | ReorderInvalidChildCount
  | UnknownOperation int

text \<open>The warning set is a \<^verbatim>\<open>Set\<close>: \<^verbatim>\<open>add\<close> keeps the insertion order and no duplicate.\<close>

definition addWarningOnce :: "warning list \<Rightarrow> warning \<Rightarrow> warning list" where
  "addWarningOnce warningSet w = (if w \<in> set warningSet then warningSet else warningSet @ [w])"

text \<open>
  A \<^verbatim>\<open>Map\<close> keyed by fiber id, as the list of its entries in insertion order:
  \<^verbatim>\<open>set\<close> replaces the value of a present key in place and appends a new key.
\<close>

type_synonym 'v jsmap = "(int \<times> 'v) list"

definition mapGet :: "'v jsmap \<Rightarrow> int \<Rightarrow> 'v option" where
  "mapGet m k = map_of m k"

fun mapSet :: "int \<Rightarrow> 'v \<Rightarrow> 'v jsmap \<Rightarrow> 'v jsmap" where
  "mapSet k v [] = [(k, v)]"
| "mapSet k v (e # m) = (if fst e = k then (k, v) # m else e # mapSet k v m)"

definition mapDelete :: "int \<Rightarrow> 'v jsmap \<Rightarrow> 'v jsmap" where
  "mapDelete k m = filter (\<lambda>e. fst e \<noteq> k) m"

text \<open>Assigning to a field of the object stored under a key.\<close>

definition updateNode :: "int \<Rightarrow> ('v \<Rightarrow> 'v) \<Rightarrow> 'v jsmap \<Rightarrow> 'v jsmap" where
  "updateNode k f m = map (\<lambda>e. if fst e = k then (fst e, f (snd e)) else e) m"

record renderNode =
  node_id :: int
  children :: "int list"
  displayName :: "jsstring option"
  hocDisplayNames :: "jsstring list option"
  node_key :: "jsstring option"
  parentID :: int
  treeBaseDuration :: real
  node_type :: "int option"
  compiledWithForget :: bool

record commitTree =
  rootID :: int
  nodes :: "renderNode jsmap"

text \<open>The state of one call: the tree, the warning set and the cursor \<open>i\<close> (\<open>None\<close> is NaN).\<close>

record decodeState =
  tree :: commitTree
  warningSet :: "warning list"
  cursor :: "nat option"

definition setNodes :: "renderNode jsmap \<Rightarrow> decodeState \<Rightarrow> decodeState" where
  "setNodes m s = s\<lparr>tree := (tree s)\<lparr>nodes := m\<rparr>\<rparr>"

definition warn :: "warning \<Rightarrow> decodeState \<Rightarrow> decodeState" where
  "warn w s = s\<lparr>warningSet := addWarningOnce (warningSet s) w\<rparr>"

text \<open>\<^verbatim>\<open>stringTable[index]\<close> when it is a string; the table starts with \<^verbatim>\<open>null\<close>.\<close>

definition stringAt :: "jsstring option list \<Rightarrow> int option \<Rightarrow> jsstring option" where
  "stringAt stringTable index =
     (case index of
        None \<Rightarrow> None
      | Some k \<Rightarrow> if 0 \<le> k \<and> nat k < length stringTable then stringTable ! nat k else None)"

definition removeChild :: "int \<Rightarrow> renderNode \<Rightarrow> renderNode" where
  "removeChild childID n = n\<lparr>children := filter (\<lambda>c. c \<noteq> childID) (children n)\<rparr>"

text \<open>
  The part of the add case after the cursor arithmetic. The object \<^verbatim>\<open>existing\<close> stays
  the object stored under \<open>id\<close>, so its children are read after the two assignments to
  children lists, which may have changed them when the node is its own parent.
\<close>

definition addNode ::
  "int \<Rightarrow> int option \<Rightarrow> int option \<Rightarrow> jsstring option \<Rightarrow> jsstring option \<Rightarrow>
   renderNode jsmap \<Rightarrow> renderNode jsmap" where
  "addNode fid ty parent dName keyStr m =
     (let m1 = (case mapGet m fid of
                  None \<Rightarrow> m
                | Some existing \<Rightarrow>
                    (case mapGet m (parentID existing) of
                       None \<Rightarrow> m
                     | Some oldParent \<Rightarrow> updateNode (parentID existing) (removeChild fid) m));
          m2 = (case parent of
                  None \<Rightarrow> m1
                | Some p \<Rightarrow>
                    (case mapGet m1 p of
                       None \<Rightarrow> m1
                     | Some parentNode \<Rightarrow>
                         if fid \<in> set (children parentNode) then m1
                         else updateNode p (\<lambda>n. n\<lparr>children := children n @ [fid]\<rparr>) m1));
          existing = mapGet m2 fid
      in mapSet fid
           \<lparr>node_id = fid,
            children = (case existing of None \<Rightarrow> [] | Some e \<Rightarrow> children e),
            displayName = dName,
            hocDisplayNames = (case existing of None \<Rightarrow> None | Some e \<Rightarrow> hocDisplayNames e),
            node_key = keyStr,
            parentID = (case parent of None \<Rightarrow> 0 | Some p \<Rightarrow> p),
            treeBaseDuration = (case existing of None \<Rightarrow> 0 | Some e \<Rightarrow> treeBaseDuration e),
            node_type = (case ty of Some t \<Rightarrow> Some t
                         | None \<Rightarrow> (case existing of None \<Rightarrow> None | Some e \<Rightarrow> node_type e)),
            compiledWithForget =
              (case existing of None \<Rightarrow> False | Some e \<Rightarrow> compiledWithForget e)\<rparr>
           m2)"

definition rootNode :: "int \<Rightarrow> renderNode" where
  "rootNode fid =
     \<lparr>node_id = fid, children = [], displayName = None, hocDisplayNames = None,
      node_key = None, parentID = 0, treeBaseDuration = 0, node_type = Some 11,
      compiledWithForget = False\<rparr>"

definition treeOperationAdd ::
  "int list \<Rightarrow> jsstring option list \<Rightarrow> nat \<Rightarrow> decodeState \<Rightarrow> decodeState" where
  "treeOperationAdd operations stringTable i s =
     (case opAt operations (i + 1) of
        None \<Rightarrow> warn AddInvalidFiberId (s\<lparr>cursor := Some (i + 3)\<rparr>)
      | Some fid \<Rightarrow>
          if opAt operations (i + 2) = Some 11
          then (s\<lparr>cursor := Some (i + 7)\<rparr>)
                 \<lparr>tree := \<lparr>rootID = fid, nodes = mapSet fid (rootNode fid) (nodes (tree s))\<rparr>\<rparr>
          else setNodes
                 (addNode fid (opAt operations (i + 2)) (opAt operations (i + 3))
                    (stringAt stringTable (opAt operations (i + 5)))
                    (stringAt stringTable (opAt operations (i + 6)))
                    (nodes (tree s)))
                 (s\<lparr>cursor := Some (i + 8)\<rparr>))"

text \<open>The body of the remove loop for one id.\<close>

definition removeNode :: "int \<Rightarrow> renderNode jsmap \<Rightarrow> renderNode jsmap" where
  "removeNode fid m =
     (case mapGet m fid of
        None \<Rightarrow> m
      | Some node \<Rightarrow>
          mapDelete fid
            (case mapGet m (parentID node) of
               None \<Rightarrow> m
             | Some parentNode \<Rightarrow> updateNode (parentID node) (removeChild fid) m))"

text \<open>
  \<^verbatim>\<open>for (k = 0; k < removeLength && i < operations.length; k++)\<close>, by the number of rounds
  that are left.
\<close>

fun removeLoop :: "int list \<Rightarrow> nat \<Rightarrow> nat \<Rightarrow> renderNode jsmap \<Rightarrow> nat \<times> renderNode jsmap" where
  "removeLoop operations 0 i m = (i, m)"
| "removeLoop operations (Suc n) i m =
     (if i < length operations
      then removeLoop operations n (i + 1) (removeNode (operations ! i) m)
      else (i, m))"

definition treeOperationRemove :: "int list \<Rightarrow> nat \<Rightarrow> decodeState \<Rightarrow> decodeState" where
  "treeOperationRemove operations i s =
     (case opAt operations (i + 1) of
        None \<Rightarrow> warn RemoveInvalidLength (s\<lparr>cursor := Some (i + 2)\<rparr>)
      | Some removeLength \<Rightarrow>
          if removeLength < 0 then warn RemoveInvalidLength (s\<lparr>cursor := Some (i + 2)\<rparr>)
          else (let (j, m) = removeLoop operations (nat removeLength) (i + 2) (nodes (tree s))
                in setNodes m (s\<lparr>cursor := Some j\<rparr>)))"

fun readChildren :: "int list \<Rightarrow> nat \<Rightarrow> nat \<Rightarrow> int list \<Rightarrow> nat \<times> int list" where
  "readChildren operations 0 i acc = (i, acc)"
| "readChildren operations (Suc n) i acc =
     (if i < length operations
      then readChildren operations n (i + 1) (acc @ [operations ! i])
      else (i, acc))"

definition reparent :: "int \<Rightarrow> int \<Rightarrow> renderNode jsmap \<Rightarrow> renderNode jsmap" where
  "reparent fid childID m =
     (case mapGet m childID of
        None \<Rightarrow> m
      | Some childNode \<Rightarrow> updateNode childID (\<lambda>n. n\<lparr>parentID := fid\<rparr>) m)"

definition treeOperationReorder :: "int list \<Rightarrow> nat \<Rightarrow> decodeState \<Rightarrow> decodeState" where
  "treeOperationReorder operations i s =
     (case opAt operations (i + 2) of
        None \<Rightarrow> warn ReorderInvalidChildCount (s\<lparr>cursor := Some (i + 3)\<rparr>)
      | Some numChildren \<Rightarrow>
          if numChildren < 0 then warn ReorderInvalidChildCount (s\<lparr>cursor := Some (i + 3)\<rparr>)
          else (let (j, cs) = readChildren operations (nat numChildren) (i + 3) [];
                    m = nodes (tree s);
                    m' = (case opAt operations (i + 1) of
                            None \<Rightarrow> m
                          | Some fid \<Rightarrow>
                              (case mapGet m fid of
                                 None \<Rightarrow> m
                               | Some node \<Rightarrow>
                                   foldl (\<lambda>acc c. reparent fid c acc)
                                     (updateNode fid (\<lambda>n. n\<lparr>children := cs\<rparr>) m) cs))
                in setNodes m' (s\<lparr>cursor := Some j\<rparr>)))"

definition treeOperationUpdateDuration :: "int list \<Rightarrow> nat \<Rightarrow> decodeState \<Rightarrow> decodeState" where
  "treeOperationUpdateDuration operations i s =
     (let m = nodes (tree s);
          m' = (case (opAt operations (i + 1), opAt operations (i + 2)) of
                  (Some fid, Some durationUs) \<Rightarrow>
                    (case mapGet m fid of
                       None \<Rightarrow> m
                     | Some node \<Rightarrow>
                         updateNode fid (\<lambda>n. n\<lparr>treeBaseDuration := real_of_int durationUs / 1000\<rparr>) m)
                | _ \<Rightarrow> m)
      in setNodes m' (s\<lparr>cursor := Some (i + 3)\<rparr>))"

text \<open>\<^verbatim>\<open>Number.isFinite(n) && n > 0 ? n : 0\<close>\<close>

definition positiveOr0 :: "int option \<Rightarrow> nat" where
  "positiveOr0 v = (case v of None \<Rightarrow> 0 | Some n \<Rightarrow> if n > 0 then nat n else 0)"

text \<open>
  \<^verbatim>\<open>base + (numRects === -1 ? 0 : Math.max(0, numRects) * 4)\<close> added to the cursor; with
  \<open>numRects\<close> NaN the maximum, the sum and the cursor are NaN.
\<close>

definition skipRects :: "nat \<Rightarrow> int option \<Rightarrow> nat option" where
  "skipRects base numRects =
     (case numRects of
        None \<Rightarrow> None
      | Some r \<Rightarrow> Some (base + (if r = - 1 then 0 else nat (max 0 r) * 4)))"

fun suspendersLoop :: "int list \<Rightarrow> nat \<Rightarrow> nat \<Rightarrow> nat" where
  "suspendersLoop operations 0 i = i"
| "suspendersLoop operations (Suc n) i =
     (if i < length operations
      then suspendersLoop operations n (i + 4 + 1 + positiveOr0 (opAt operations (i + 4)))
      else i)"

text \<open>One round of the main loop: the switch on the operation code at the cursor \<open>i\<close>.\<close>

definition applyOperation ::
  "int list \<Rightarrow> jsstring option list \<Rightarrow> nat \<Rightarrow> int \<Rightarrow> decodeState \<Rightarrow> decodeState" where
  "applyOperation operations stringTable i operation s =
     (if operation = 1 then treeOperationAdd operations stringTable i s
      else if operation = 2 then treeOperationRemove operations i s
      else if operation = 3 then treeOperationReorder operations i s
      else if operation = 7 then s\<lparr>cursor := Some (i + 3)\<rparr>
      else if operation = 4 then treeOperationUpdateDuration operations i s
      else if operation = 5 then s\<lparr>cursor := Some (i + 4)\<rparr>
      else if operation = 8 then s\<lparr>cursor := skipRects (i + 6) (opAt operations (i + 5))\<rparr>
      else if operation = 9
        then s\<lparr>cursor := Some (i + 2 + positiveOr0 (opAt operations (i + 1)))\<rparr>
      else if operation = 10
        then s\<lparr>cursor := Some (i + 3 + positiveOr0 (opAt operations (i + 2)))\<rparr>
      else if operation = 11 then s\<lparr>cursor := skipRects (i + 3) (opAt operations (i + 2))\<rparr>
      else if operation = 12
        then s\<lparr>cursor := Some (suspendersLoop operations
                                (positiveOr0 (opAt operations (i + 1))) (i + 2))\<rparr>
      else if operation = 13 then s\<lparr>cursor := Some (i + 2)\<rparr>
      else warn (UnknownOperation operation) (s\<lparr>cursor := Some (i + 1)\<rparr>))"

text \<open>The operation codes that the switch knows.\<close>

definition knownOperation :: "int \<Rightarrow> bool" where
  "knownOperation operation = (operation \<in> {1, 2, 3, 4, 5, 7, 8, 9, 10, 11, 12, 13})"

text \<open>The loop condition \<^verbatim>\<open>i < operations.length\<close>, false for NaN.\<close>

definition loopRunning :: "int list \<Rightarrow> decodeState \<Rightarrow> bool" where
  "loopRunning operations s =
     (case cursor s of None \<Rightarrow> False | Some i \<Rightarrow> i < length operations)"

text \<open>One round of the main loop from a state: read the code at the cursor, switch.\<close>

definition loopBody :: "int list \<Rightarrow> jsstring option list \<Rightarrow> decodeState \<Rightarrow> decodeState" where
  "loopBody operations stringTable s =
     (case cursor s of
        None \<Rightarrow> s
      | Some i \<Rightarrow> applyOperation operations stringTable i (operations ! i) s)"

text \<open>
  The distance of the cursor from the end of the record; it is 0 once the cursor is NaN.
\<close>

definition cursorDistance :: "int list \<Rightarrow> decodeState \<Rightarrow> nat" where
  "cursorDistance operations s =
     (case cursor s of None \<Rightarrow> 0 | Some i \<Rightarrow> length operations - i)"

lemma removeLoop_cursor: "i \<le> fst (removeLoop operations n i m)"
proof (induction n arbitrary: i m)
  case 0
  show ?case by simp
next
  case (Suc n)
  from Suc [of "i + 1"] show ?case
    by (simp add: Suc_leD)
qed

lemma readChildren_cursor: "i \<le> fst (readChildren operations n i acc)"
proof (induction n arbitrary: i acc)
  case 0
  show ?case by simp
next
  case (Suc n)
  from Suc [of "i + 1"] show ?case
    by (simp add: Suc_leD)
qed

lemma suspendersLoop_cursor: "i \<le> suspendersLoop operations n i"
proof (induction n arbitrary: i)
  case 0
  show ?case by simp
next
  case (Suc n)
  from Suc [of "i + 4 + 1 + positiveOr0 (opAt operations (i + 4))"] show ?case
    by simp
qed

lemma cursor_setNodes [simp]: "cursor (setNodes m s) = cursor s"
  by (simp add: setNodes_def)

lemma cursor_warn [simp]: "cursor (warn w s) = cursor s"
  by (simp add: warn_def)

lemma treeOperationAdd_cursor:
  "\<exists>j. cursor (treeOperationAdd operations stringTable i s) = Some j \<and> i < j"
  by (simp add: treeOperationAdd_def split: option.splits)

lemma treeOperationRemove_cursor:
  "\<exists>j. cursor (treeOperationRemove operations i s) = Some j \<and> i < j"
proof (cases "opAt operations (i + 1)")
  case None
  then show ?thesis by (simp add: treeOperationRemove_def)
next
  case (Some removeLength)
  have "i + 2 \<le> fst (removeLoop operations (nat removeLength) (i + 2) (nodes (tree s)))"
    by (rule removeLoop_cursor)
  with Some show ?thesis
    by (auto simp add: treeOperationRemove_def split: prod.splits)
qed

lemma treeOperationReorder_cursor:
  "\<exists>j. cursor (treeOperationReorder operations i s) = Some j \<and> i < j"
proof (cases "opAt operations (i + 2)")
  case None
  then show ?thesis by (simp add: treeOperationReorder_def)
next
  case (Some numChildren)
  have "i + 3 \<le> fst (readChildren operations (nat numChildren) (i + 3) [])"
    by (rule readChildren_cursor)
  with Some show ?thesis
    by (auto simp add: treeOperationReorder_def Let_def split: prod.splits)
qed

lemma skipRects_cursor: "skipRects base v = Some j \<Longrightarrow> base \<le> j"
  by (auto simp add: skipRects_def split: option.splits)

lemma applyOperation_cursor:
  "cursor (applyOperation operations stringTable i operation s) = None \<or>
   (\<exists>j. cursor (applyOperation operations stringTable i operation s) = Some j \<and> i < j)"
proof -
  have "i + 2 \<le> suspendersLoop operations (positiveOr0 (opAt operations (i + 1))) (i + 2)"
    by (rule suspendersLoop_cursor)
  then have s12: "i < suspendersLoop operations (positiveOr0 (opAt operations (i + 1))) (i + 2)"
    by simp
  have r: "skipRects (i + k) v = None \<or> (\<exists>j. skipRects (i + k) v = Some j \<and> i < j)"
    if "0 < k" for k v
    using that by (cases "skipRects (i + k) v") (auto dest: skipRects_cursor)
  show ?thesis
    using treeOperationAdd_cursor [of operations stringTable i s]
      treeOperationRemove_cursor [of operations i s]
      treeOperationReorder_cursor [of operations i s]
      s12 r [of 6 "opAt operations (i + 5)"] r [of 3 "opAt operations (i + 2)"]
    by (simp add: applyOperation_def treeOperationUpdateDuration_def Let_def)
qed

lemma loopBody_decreases:
  assumes "loopRunning operations s"
  shows "cursorDistance operations (loopBody operations stringTable s)
           < cursorDistance operations s"
proof -
  from assms obtain i where i: "cursor s = Some i" "i < length operations"
    by (auto simp add: loopRunning_def split: option.splits)
  from applyOperation_cursor [of operations stringTable i "operations ! i" s] i
  show ?thesis
    by (auto simp add: cursorDistance_def loopBody_def)
qed

text \<open>The main loop \<^verbatim>\<open>while (i < operations.length) { switch ... }\<close>.\<close>

function operationsLoop :: "int list \<Rightarrow> jsstring option list \<Rightarrow> decodeState \<Rightarrow> decodeState" where
  "operationsLoop operations stringTable s =
     (if loopRunning operations s
      then operationsLoop operations stringTable (loopBody operations stringTable s)
      else s)"
  by pat_completeness auto
termination
  by (relation "measure (\<lambda>(operations, stringTable, s). cursorDistance operations s)")
     (simp_all add: loopBody_decreases)

declare operationsLoop.simps [simp del]

text \<open>
  The loop that decodes the string table, from the cursor \<open>i\<close> up to \<open>stringTableEnd\<close>. It
  ends with the table and the cursor, with the early return on a malformed length, or
  with the RangeError of \<^verbatim>\<open>String.fromCodePoint\<close>.
\<close>

datatype tableResult =
    TableDecoded nat "jsstring option list"
  | TableMalformed
  | TableRangeError

function stringTableLoop ::
  "int list \<Rightarrow> nat \<Rightarrow> nat \<Rightarrow> jsstring option list \<Rightarrow> tableResult" where
  "stringTableLoop operations stringTableEnd i stringTable =
     (if i < stringTableEnd
      then (case opAt operations i of
              None \<Rightarrow> TableMalformed
            | Some nextLength \<Rightarrow>
                if nextLength < 0 \<or> int (i + 1) + nextLength > int (length operations)
                then TableMalformed
                else (case decodeStringFromOperations operations (i + 1) nextLength of
                        None \<Rightarrow> TableRangeError
                      | Some decoded \<Rightarrow>
                          stringTableLoop operations stringTableEnd (i + 1 + nat nextLength)
                            (stringTable @ [Some decoded])))
      else TableDecoded i stringTable)"
  by pat_completeness auto
termination
  by (relation "measure (\<lambda>(operations, stringTableEnd, i, stringTable). stringTableEnd - i)")
     auto

declare stringTableLoop.simps [simp del]

datatype fault = RangeError

text \<open>
  The whole function. The caller passes an array; the result is the tree and the warning
  set after the call, or the exception that leaves the function.
\<close>

definition applyOperationsToCommitTree ::
  "commitTree \<Rightarrow> int list \<Rightarrow> warning list \<Rightarrow> fault + (commitTree \<times> warning list)" where
  "applyOperationsToCommitTree commitTree operations warnings =
     (if length operations < 3 then Inr (commitTree, warnings)
      else
        (let stringTableSize = operations ! 2
         in if stringTableSize < 0
            then Inr (commitTree, addWarningOnce warnings InvalidStringTable)
            else
              (case stringTableLoop operations
                      (min (length operations) (3 + nat stringTableSize)) 3 [None] of
                 TableMalformed \<Rightarrow>
                   Inr (commitTree, addWarningOnce warnings MalformedStringPayload)
               | TableRangeError \<Rightarrow> Inl RangeError
               | TableDecoded i stringTable \<Rightarrow>
                   (let s = operationsLoop operations stringTable
                              \<lparr>tree = commitTree, warningSet = warnings, cursor = Some i\<rparr>
                    in Inr (tree s, warningSet s)))))"

text \<open>The children list of a node of a tree, when the node is present.\<close>

definition childrenOf :: "commitTree \<Rightarrow> int \<Rightarrow> int list option" where
  "childrenOf t fid = map_option children (mapGet (nodes t) fid)"

text \<open>
  The operations record of one add followed by one remove of the same id: renderer id,
  root id, an empty string table, the add with its seven operands and the remove of one
  id.
\<close>

definition addThenRemove :: "int \<Rightarrow> int \<Rightarrow> int \<Rightarrow> int list" where
  "addThenRemove fid ty parent = [1, 1, 0, 1, fid, ty, parent, 0, 0, 0, 0, 2, 1, fid]"

section \<open>Commit analyzer (analyze-profile: buildCommitFlamegraph)\<close>

text \<open>
  The duration maps of a commit are \<^verbatim>\<open>Map\<close>s from fiber id to a finite number, and a
  \<^verbatim>\<open>Set\<close> of ids is the list of its members in insertion order. Of a flamegraph node the
  model keeps the id, the parent, the children, the depth and the three durations; the
  name, the key, the type and the render reasons of a node are left out, since no
  duration depends on them. The root id of a tree is a number, so the root is always in
  the included set, and the two fallbacks of the source for an empty included set and for
  a root that is not a number are never taken.
\<close>

definition setAdd :: "int list \<Rightarrow> int \<Rightarrow> int list" where
  "setAdd xs x = (if x \<in> set xs then xs else xs @ [x])"


text \<open>\<^verbatim>\<open>Number(m.get(fiberId) ?? 0)\<close>\<close>

definition getOr0 :: "real jsmap \<Rightarrow> int \<Rightarrow> real" where
  "getOr0 m fid = (case mapGet m fid of None \<Rightarrow> 0 | Some v \<Rightarrow> v)"

text \<open>\<^verbatim>\<open>childrenByFiberID.get(fiberId) ?? []\<close>\<close>

definition childrenOr :: "int list jsmap \<Rightarrow> int \<Rightarrow> int list" where
  "childrenOr ch fid = (case mapGet ch fid of None \<Rightarrow> [] | Some cs \<Rightarrow> cs)"

text \<open>
  The root of the flamegraph: the root of the tree, or the first key of the tree when the
  tree is not empty and does not have its root.
\<close>

definition rootFiberIdOf :: "commitTree \<Rightarrow> int" where
  "rootFiberIdOf t =
     (if mapGet (nodes t) (rootID t) = None \<and> nodes t \<noteq> []
      then fst (hd (nodes t)) else rootID t)"

text \<open>The number of keys of the tree that the walk has not seen.\<close>

definition unseenKeys :: "renderNode jsmap \<Rightarrow> int set \<Rightarrow> nat" where
  "unseenKeys nodesByID seen = card (fst ` set nodesByID - seen)"

lemma mapGet_key: "mapGet m k = Some v \<Longrightarrow> k \<in> fst ` set m"
  by (auto simp add: mapGet_def dest: map_of_SomeD intro: rev_image_eqI)

lemma unseenKeys_insert:
  "p \<notin> seen \<Longrightarrow> p \<in> fst ` set nodesByID \<Longrightarrow>
   unseenKeys nodesByID (insert p seen) < unseenKeys nodesByID seen"
  unfolding unseenKeys_def
  by (rule psubset_card_mono) auto

lemma unseenKeys_insert_le:
  "unseenKeys nodesByID (insert p seen) \<le> unseenKeys nodesByID seen"
  unfolding unseenKeys_def
  by (rule card_mono) auto

text \<open>
  The loop \<^verbatim>\<open>while (true)\<close> that adds the ancestors of a rendered fiber to the included
  set; it stops at a missing node, at the parent 0 and at a parent it has seen.
\<close>

function ancestorWalk :: "renderNode jsmap \<Rightarrow> int \<Rightarrow> int set \<Rightarrow> int list \<Rightarrow> int list" where
  "ancestorWalk nodesByID cur seen included =
     (case mapGet nodesByID cur of
        None \<Rightarrow> included
      | Some node \<Rightarrow>
          if parentID node = 0 \<or> parentID node \<in> seen then included
          else ancestorWalk nodesByID (parentID node) (insert (parentID node) seen)
                 (setAdd included (parentID node)))"
  by pat_completeness auto
termination
proof (relation "measure (\<lambda>(nodesByID, cur, seen, included).
          2 * unseenKeys nodesByID seen + (if cur \<in> fst ` set nodesByID then 1 else 0))",
       goal_cases)
  case 1
  show ?case by simp
next
  case (2 nodesByID cur seen included node)
  then have cur: "cur \<in> fst ` set nodesByID" and new: "parentID node \<notin> seen"
    by (auto dest: mapGet_key)
  show ?case
  proof (cases "parentID node \<in> fst ` set nodesByID")
    case True
    from unseenKeys_insert [OF new True] cur show ?thesis by simp
  next
    case False
    with unseenKeys_insert_le [of nodesByID "parentID node" seen] cur show ?thesis by simp
  qed
qed

declare ancestorWalk.simps [simp del]

definition includedFiberIDs :: "commitTree \<Rightarrow> int list \<Rightarrow> int list" where
  "includedFiberIDs t renderedFibers =
     foldl (\<lambda>included fid. ancestorWalk (nodes t) fid {fid} (setAdd included fid))
       [rootFiberIdOf t] renderedFibers"

text \<open>The parent of an included fiber in the flamegraph; 0 for the root.\<close>

definition parentFiberOf :: "commitTree \<Rightarrow> int list \<Rightarrow> int \<Rightarrow> int" where
  "parentFiberOf t included fid =
     (if fid \<noteq> rootFiberIdOf t
      then (case mapGet (nodes t) fid of
              None \<Rightarrow> rootFiberIdOf t
            | Some node \<Rightarrow>
                if parentID node \<in> set included then parentID node else rootFiberIdOf t)
      else 0)"

text \<open>The second loop over the included set: each fiber is pushed to its parent's list.\<close>

definition attachToParent :: "commitTree \<Rightarrow> int list \<Rightarrow> int list jsmap \<Rightarrow> int \<Rightarrow> int list jsmap" where
  "attachToParent t included ch fid =
     (let parentFiberId = parentFiberOf t included fid
      in if parentFiberId \<noteq> 0
         then (if fid \<in> set (childrenOr ch parentFiberId) then ch
               else mapSet parentFiberId (childrenOr ch parentFiberId @ [fid]) ch)
         else ch)"

text \<open>
  The third loop: the children of a fiber that the tree has, in the order of the tree,
  followed by the other known children in ascending order.
\<close>

definition orderChildren :: "commitTree \<Rightarrow> int list \<Rightarrow> int list jsmap \<Rightarrow> int \<Rightarrow> int list jsmap" where
  "orderChildren t included ch fid =
     (case mapGet (nodes t) fid of
        None \<Rightarrow> ch
      | Some node \<Rightarrow>
          (let knownChildren = childrenOr ch fid;
               orderedFromTree = filter (\<lambda>c. c \<in> set included) (children node);
               extras = sort (filter (\<lambda>c. c \<notin> set orderedFromTree) knownChildren)
           in mapSet fid (orderedFromTree @ extras) ch))"

definition childrenByFiberID :: "commitTree \<Rightarrow> int list \<Rightarrow> int list jsmap" where
  "childrenByFiberID t included =
     foldl (orderChildren t included)
       (foldl (attachToParent t included) (map (\<lambda>fid. (fid, [])) included) included)
       included"

text \<open>
  The breadth-first walk from the root that assigns the depths: the loop over the queue,
  and in it the loop over the children of the fiber taken from the queue. The measure of
  the walk counts the queue and, twice, the children ids that have no depth yet.
\<close>

definition visitChild :: "nat \<Rightarrow> int list \<times> nat jsmap \<Rightarrow> int \<Rightarrow> int list \<times> nat jsmap" where
  "visitChild parentDepth qd childID =
     (if mapGet (snd qd) childID \<noteq> None then qd
      else (fst qd @ [childID], mapSet childID (parentDepth + 1) (snd qd)))"

definition childIds :: "int list jsmap \<Rightarrow> int set" where
  "childIds ch = (\<Union>e\<in>set ch. set (snd e))"

definition bfsWeight :: "int list jsmap \<Rightarrow> int list \<times> nat jsmap \<Rightarrow> nat" where
  "bfsWeight ch qd = 2 * card (childIds ch - fst ` set (snd qd)) + length (fst qd)"

lemma finite_childIds [simp]: "finite (childIds ch)"
  by (simp add: childIds_def)

lemma keys_mapSet: "fst ` set (mapSet k v m) = insert k (fst ` set m)"
  by (induction m) auto

lemma mapGet_None_keys: "(mapGet m k = None) = (k \<notin> fst ` set m)"
  by (simp add: mapGet_def map_of_eq_None_iff)

lemma visitChild_weight:
  assumes "c \<in> childIds ch"
  shows "bfsWeight ch (visitChild d qd c) \<le> bfsWeight ch qd"
proof (cases "mapGet (snd qd) c \<noteq> None")
  case True
  then show ?thesis by (simp add: visitChild_def)
next
  case False
  then have new: "c \<notin> fst ` set (snd qd)" by (simp add: mapGet_None_keys)
  have "childIds ch - insert c (fst ` set (snd qd)) \<subset> childIds ch - fst ` set (snd qd)"
    using assms new by auto
  then have "card (childIds ch - insert c (fst ` set (snd qd)))
      < card (childIds ch - fst ` set (snd qd))"
    by (intro psubset_card_mono) simp_all
  with False show ?thesis
    by (simp add: visitChild_def bfsWeight_def keys_mapSet)
qed

lemma visitChildren_weight:
  "set cs \<subseteq> childIds ch \<Longrightarrow> bfsWeight ch (foldl (visitChild d) qd cs) \<le> bfsWeight ch qd"
proof (induction cs arbitrary: qd)
  case Nil
  show ?case by simp
next
  case (Cons c cs)
  then have "bfsWeight ch (foldl (visitChild d) (visitChild d qd c) cs)
      \<le> bfsWeight ch (visitChild d qd c)"
    by simp
  also have "\<dots> \<le> bfsWeight ch qd"
    using Cons.prems by (intro visitChild_weight) simp
  finally show ?case by simp
qed

lemma childrenOr_childIds: "set (childrenOr ch fid) \<subseteq> childIds ch"
proof (cases "mapGet ch fid")
  case None
  then show ?thesis by (simp add: childrenOr_def)
next
  case (Some cs)
  then have "(fid, cs) \<in> set ch"
    by (simp add: mapGet_def map_of_SomeD)
  then have "set cs \<subseteq> childIds ch"
    by (force simp add: childIds_def)
  with Some show ?thesis by (simp add: childrenOr_def)
qed

function bfsDepth :: "int list jsmap \<Rightarrow> int list \<Rightarrow> nat jsmap \<Rightarrow> nat jsmap" where
  "bfsDepth ch [] depth = depth"
| "bfsDepth ch (parentFiber # queue) depth =
     (let parentDepth = (case mapGet depth parentFiber of None \<Rightarrow> 0 | Some d \<Rightarrow> d);
          qd = foldl (visitChild parentDepth) (queue, depth) (childrenOr ch parentFiber)
      in bfsDepth ch (fst qd) (snd qd))"
  by pat_completeness auto
termination
proof (relation "measure (\<lambda>(ch, queue, depth). bfsWeight ch (queue, depth))", goal_cases)
  case 1
  show ?case by simp
next
  case (2 ch parentFiber queue depth parentDepth qd)
  have "bfsWeight ch (foldl (visitChild parentDepth) (queue, depth) (childrenOr ch parentFiber))
      \<le> bfsWeight ch (queue, depth)"
    by (rule visitChildren_weight) (rule childrenOr_childIds)
  also have "\<dots> < bfsWeight ch (parentFiber # queue, depth)"
    by (simp add: bfsWeight_def)
  finally show ?case using 2 by simp
qed

text \<open>The depths of the walk, and depth 1 (0 for the root) for a fiber the walk missed.\<close>

definition depthByFiberID :: "commitTree \<Rightarrow> int list \<Rightarrow> int list jsmap \<Rightarrow> nat jsmap" where
  "depthByFiberID t included ch =
     foldl (\<lambda>depth fid.
              if mapGet depth fid \<noteq> None then depth
              else mapSet fid (if fid \<noteq> rootFiberIdOf t then 1 else 0) depth)
       (if rootFiberIdOf t \<in> set included
        then bfsDepth ch [rootFiberIdOf t] [(rootFiberIdOf t, 0)] else [])
       included"

text \<open>
  \<^verbatim>\<open>computeSubtreeMs\<close> with its memo table and its lineage set, and the loop over the
  children of a fiber. The lineage is passed down with the fiber added; the source adds
  the fiber before the loop and deletes it after the loop. The measure of the recursion is
  the number of fibers with a children list that are not in the lineage.
\<close>

definition outsideLineage :: "int list jsmap \<Rightarrow> int set \<Rightarrow> nat" where
  "outsideLineage ch lineage = card (fst ` set ch - lineage)"

lemma outsideLineage_insert:
  "mapGet ch fid = Some cs \<Longrightarrow> fid \<notin> lineage \<Longrightarrow>
   outsideLineage ch (insert fid lineage) < outsideLineage ch lineage"
  unfolding outsideLineage_def
  by (rule psubset_card_mono) (auto dest: mapGet_key)

function computeSubtreeMs ::
    "int list jsmap \<Rightarrow> real jsmap \<Rightarrow> int \<Rightarrow> int set \<Rightarrow> real jsmap \<Rightarrow> real \<times> real jsmap"
  and sumChildren ::
    "int list jsmap \<Rightarrow> real jsmap \<Rightarrow> int list \<Rightarrow> int set \<Rightarrow> real \<Rightarrow> real jsmap \<Rightarrow>
     real \<times> real jsmap"
where
  "computeSubtreeMs ch selfByFiber fid lineage memo =
     (case mapGet memo fid of
        Some v \<Rightarrow> (v, memo)
      | None \<Rightarrow>
          if fid \<in> lineage then (getOr0 selfByFiber fid, memo)
          else (case mapGet ch fid of
                  None \<Rightarrow> (getOr0 selfByFiber fid, mapSet fid (getOr0 selfByFiber fid) memo)
                | Some cs \<Rightarrow>
                    (let (totalMs, memo') =
                           sumChildren ch selfByFiber cs (insert fid lineage)
                             (getOr0 selfByFiber fid) memo
                     in (totalMs, mapSet fid totalMs memo'))))"
| "sumChildren ch selfByFiber [] lineage totalMs memo = (totalMs, memo)"
| "sumChildren ch selfByFiber (c # cs) lineage totalMs memo =
     (let (v, memo') = computeSubtreeMs ch selfByFiber c lineage memo
      in sumChildren ch selfByFiber cs lineage (totalMs + v) memo')"
  by pat_completeness auto
termination
  by (relation "measures
        [\<lambda>x. case x of
               Inl (ch, selfByFiber, fid, lineage, memo) \<Rightarrow> outsideLineage ch lineage
             | Inr (ch, selfByFiber, cs, lineage, totalMs, memo) \<Rightarrow> outsideLineage ch lineage,
         \<lambda>x. case x of
               Inl (ch, selfByFiber, fid, lineage, memo) \<Rightarrow> 0
             | Inr (ch, selfByFiber, cs, lineage, totalMs, memo) \<Rightarrow> Suc (length cs)]")
     (auto simp add: outsideLineage_insert)

declare computeSubtreeMs.simps [simp del]

text \<open>The loop \<^verbatim>\<open>for (const fiberId of includedFiberIDs) computeSubtreeMs(fiberId)\<close>.\<close>

definition computedSubtreeMsByFiberID :: "int list jsmap \<Rightarrow> real jsmap \<Rightarrow> int list \<Rightarrow> real jsmap" where
  "computedSubtreeMsByFiberID ch selfByFiber included =
     foldl (\<lambda>memo fid. snd (computeSubtreeMs ch selfByFiber fid {} memo)) [] included"

record flamegraphNode =
  fiberId :: int
  parentFiberId :: int
  childrenFiberIds :: "int list"
  depth :: nat
  selfMs :: real
  subtreeMs :: real
  computedSubtreeMs :: real

text \<open>The comparator of the node list: depth ascending, then fiber id ascending.\<close>

definition nodeOrder :: "flamegraphNode \<Rightarrow> flamegraphNode \<Rightarrow> real" where
  "nodeOrder a b =
     (if depth a \<noteq> depth b then real (depth a) - real (depth b)
      else real_of_int (fiberId a - fiberId b))"

definition buildCommitFlamegraph ::
  "commitTree \<Rightarrow> int list \<Rightarrow> real jsmap \<Rightarrow> real jsmap \<Rightarrow> flamegraphNode list" where
  "buildCommitFlamegraph t renderedFibers actualByFiber selfByFiber =
     (let included = includedFiberIDs t renderedFibers;
          ch = childrenByFiberID t included;
          depths = depthByFiberID t included ch;
          memo = computedSubtreeMsByFiberID ch selfByFiber included
      in sortBy nodeOrder
           (map (\<lambda>fid.
                   \<lparr>fiberId = fid,
                    parentFiberId = parentFiberOf t included fid,
                    childrenFiberIds = childrenOr ch fid,
                    depth = (case mapGet depths fid of None \<Rightarrow> 0 | Some d \<Rightarrow> d),
                    selfMs = round_num (getOr0 selfByFiber fid) 2,
                    subtreeMs = round_num (getOr0 actualByFiber fid) 2,
                    computedSubtreeMs = round_num (getOr0 memo fid) 2\<rparr>)
              included))"

text \<open>
  The value that \<^verbatim>\<open>computeSubtreeMs\<close> has recorded for a fiber when the flamegraph is
  built, before rounding.
\<close>

definition recomputedSubtreeMs :: "commitTree \<Rightarrow> int list \<Rightarrow> real jsmap \<Rightarrow> int \<Rightarrow> real" where
  "recomputedSubtreeMs t renderedFibers selfByFiber fid =
     getOr0
       (computedSubtreeMsByFiberID
          (childrenByFiberID t (includedFiberIDs t renderedFibers)) selfByFiber
          (includedFiberIDs t renderedFibers))
       fid"


text \<open>A two-node tree for examples: the root 1 with the child 2.\<close>

definition exampleNode :: "int \<Rightarrow> int \<Rightarrow> int list \<Rightarrow> renderNode" where
  "exampleNode fid parent cs =
     \<lparr>node_id = fid, children = cs, displayName = None, hocDisplayNames = None,
      node_key = None, parentID = parent, treeBaseDuration = 0, node_type = Some 5,
      compiledWithForget = False\<rparr>"

definition exampleTree :: commitTree where
  "exampleTree = \<lparr>rootID = 1, nodes = [(1, exampleNode 1 0 [2]), (2, exampleNode 2 1 [])]\<rparr>"

text \<open>A later warning set keeps the earlier diagnostics, and stays free of duplicates.\<close>

definition warningsExtend :: "warning list \<Rightarrow> warning list \<Rightarrow> bool" where
  "warningsExtend ws ws' = (set ws \<subseteq> set ws' \<and> (distinct ws \<longrightarrow> distinct ws'))"




text \<open>
  The children lists have no cycle: some rank decreases from each fiber to its children.
\<close>

definition ranked :: "int list jsmap \<Rightarrow> (int \<Rightarrow> nat) \<Rightarrow> bool" where
  "ranked ch rank = (\<forall>f c. c \<in> set (childrenOr ch f) \<longrightarrow> rank c < rank f)"

definition memoClosed :: "int list jsmap \<Rightarrow> real jsmap \<Rightarrow> real jsmap \<Rightarrow> bool" where
  "memoClosed ch selfByFiber memo =
     (\<forall>f v. mapGet memo f = Some v \<longrightarrow>
        v = getOr0 selfByFiber f + sum_list (map (getOr0 memo) (childrenOr ch f)) \<and>
        (\<forall>c\<in>set (childrenOr ch f). mapGet memo c \<noteq> None))"

definition memoGrows :: "real jsmap \<Rightarrow> real jsmap \<Rightarrow> bool" where
  "memoGrows memo memo' = (\<forall>k w. mapGet memo k = Some w \<longrightarrow> mapGet memo' k = Some w)"

definition newBelow :: "(int \<Rightarrow> nat) \<Rightarrow> nat \<Rightarrow> real jsmap \<Rightarrow> real jsmap \<Rightarrow> bool" where
  "newBelow rank b memo memo' =
     (\<forall>k. mapGet memo k = None \<longrightarrow> mapGet memo' k \<noteq> None \<longrightarrow> rank k < b)"

text \<open>The rank of the example tree: the root above its child.\<close>

definition exampleRank :: "int \<Rightarrow> nat" where
  "exampleRank fid = (if fid = 1 then 1 else 0)"

section \<open>Theorems\<close>

subsection \<open>Render-cause classifier\<close>

lemma joinPlus_Cons: "rs \<noteq> [] \<Longrightarrow> joinPlus (r # rs) = r @ ''+'' @ joinPlus rs"
  by (cases rs) simp_all

text \<open>
  C5, as the specification states it, fails: a first mount whose props changed-set is
  non-empty is summarised as mount+props, not as mount.
\<close>

theorem summarize_mount_props_counterexample:
  "summarizeChangeDescription
     (Some \<lparr>isFirstMount = True, cd_props = Some [KeyName ''value''], cd_state = None,
            cd_context = None, cd_hooks = None, didHooksChange = False\<rparr>)
   = Some ''mount+props''"
  by (simp add: summarizeChangeDescription_def pushIf_def nonEmptyArray_def)

text \<open>
  C5 (amended): the classifier accumulates, in this order, mount when the record is a
  first mount, then each of props, state, context and hooks whose changed-set is non-empty
  (hooks also when the didHooksChange flag is set), and joins them with a plus sign; when
  nothing was accumulated the summary is unknown. A first mount is summarised as exactly
  mount if and only if no category was accumulated after it; a record that is not a first
  mount gets the joined categories, or unknown when there are none.
\<close>

theorem summarizeChangeDescription_accumulates:
  "summarizeChangeDescription (Some cd) =
     Some (if isFirstMount cd then joinPlus (''mount'' # changedCategories cd)
           else if changedCategories cd = [] then ''unknown''
           else joinPlus (changedCategories cd))
   \<and> (isFirstMount cd \<longrightarrow>
        (summarizeChangeDescription (Some cd) = Some ''mount'') = (changedCategories cd = []))"
proof -
  have eq: "summarizeChangeDescription (Some cd) =
     Some (if isFirstMount cd then joinPlus (''mount'' # changedCategories cd)
           else if changedCategories cd = [] then ''unknown''
           else joinPlus (changedCategories cd))"
    by (simp add: summarizeChangeDescription_def pushIf_def changedCategories_def Let_def)
  have "joinPlus (''mount'' # changedCategories cd) \<noteq> ''mount''"
    if "changedCategories cd \<noteq> []"
    using that by (simp add: joinPlus_Cons)
  then have "isFirstMount cd \<longrightarrow>
      (summarizeChangeDescription (Some cd) = Some ''mount'') = (changedCategories cd = [])"
    unfolding eq by auto
  with eq show ?thesis by blast
qed

theorem summarizeChangeDescription_accumulates_witness:
  "summarizeChangeDescription
     (Some \<lparr>isFirstMount = True, cd_props = Some [], cd_state = None,
            cd_context = None, cd_hooks = Some [], didHooksChange = False\<rparr>) = Some ''mount''
   \<and> summarizeChangeDescription
     (Some \<lparr>isFirstMount = False, cd_props = Some [KeyName ''a''], cd_state = None,
            cd_context = None, cd_hooks = Some [KeyIndex 2], didHooksChange = True\<rparr>)
     = Some ''props+hooks''"
  using summarizeChangeDescription_accumulates
          [of "\<lparr>isFirstMount = True, cd_props = Some [], cd_state = None,
            cd_context = None, cd_hooks = Some [], didHooksChange = False\<rparr>"]
        summarizeChangeDescription_accumulates
          [of "\<lparr>isFirstMount = False, cd_props = Some [KeyName ''a''], cd_state = None,
            cd_context = None, cd_hooks = Some [KeyIndex 2], didHooksChange = True\<rparr>"]
  by (simp add: changedCategories_def nonEmptyArray_def)

subsection \<open>Comparator verdict\<close>

lemmas verdict_defs =
  compareReports_verdict_def primaryDecreased_def primaryIncreased_def
  churnNewlyAppeared_def churnResolved_def

lemma churnOf_simps [simp]: "churnOf (r\<lparr>cadence := Some churning\<rparr>) = True"
  "churnOf \<lparr>reactTimeMs = t, reactComponentTrackEvents = e, cadence = Some churning\<rparr> = True"
  "churnOf \<lparr>reactTimeMs = t, reactComponentTrackEvents = e, cadence = Some steady\<rparr> = False"
  by (simp_all add: churnOf_def churning_def steady_def)

text \<open>
  C2, as the specification states it, fails: with the primary total going down from 120 to
  40 and periodic churn classified in both reports (so churn did not newly appear), the
  verdict is mixed, not improved.
\<close>

theorem verdict_persisting_churn_counterexample:
  "primaryDecreased
     \<lparr>reactTimeMs = Some 120, reactComponentTrackEvents = None, cadence = Some churning\<rparr>
     \<lparr>reactTimeMs = Some 40, reactComponentTrackEvents = None, cadence = Some churning\<rparr>
   \<and> \<not> churnNewlyAppeared
     \<lparr>reactTimeMs = Some 120, reactComponentTrackEvents = None, cadence = Some churning\<rparr>
     \<lparr>reactTimeMs = Some 40, reactComponentTrackEvents = None, cadence = Some churning\<rparr>
   \<and> compareReports_verdict
     \<lparr>reactTimeMs = Some 120, reactComponentTrackEvents = None, cadence = Some churning\<rparr>
     \<lparr>reactTimeMs = Some 40, reactComponentTrackEvents = None, cadence = Some churning\<rparr>
     = ''mixed''"
  by (simp add: verdict_defs beforePrimary_def afterPrimary_def hasDurationSignal_def
      numberOr0_def)

text \<open>
  C2 (amended): leaving aside the one combination of a decreased primary metric with newly
  appeared churn, the verdict is improved if and only if the primary metric decreased and
  the after report has no periodic churn (churn was never classified, or it got resolved);
  it is regressed if and only if the primary metric increased or churn newly appeared; in
  every other case it is mixed. A decreased primary metric with churn persisting in both
  reports is therefore mixed, and so are equal primary totals with an unchanged churn
  classification.
\<close>

theorem compareReports_verdict_cases:
  assumes "\<not> (primaryDecreased before after \<and> churnNewlyAppeared before after)"
  shows "(compareReports_verdict before after = ''improved'') =
           (primaryDecreased before after \<and> \<not> churnOf after)
       \<and> (compareReports_verdict before after = ''regressed'') =
           (primaryIncreased before after \<or> churnNewlyAppeared before after)
       \<and> (compareReports_verdict before after = ''mixed'') =
           (\<not> (primaryDecreased before after \<and> \<not> churnOf after) \<and>
            \<not> (primaryIncreased before after \<or> churnNewlyAppeared before after))
       \<and> (beforePrimary before after = afterPrimary before after \<and>
          churnOf before = churnOf after \<longrightarrow>
          compareReports_verdict before after = ''mixed'')"
  using assms by (auto simp add: verdict_defs Let_def)

theorem compareReports_verdict_cases_witness:
  "compareReports_verdict
     \<lparr>reactTimeMs = Some 120, reactComponentTrackEvents = Some 9, cadence = Some churning\<rparr>
     \<lparr>reactTimeMs = Some 40, reactComponentTrackEvents = Some 9, cadence = Some steady\<rparr>
     = ''improved''
   \<and> compareReports_verdict
     \<lparr>reactTimeMs = Some 40, reactComponentTrackEvents = None, cadence = Some steady\<rparr>
     \<lparr>reactTimeMs = Some 40, reactComponentTrackEvents = None, cadence = Some steady\<rparr>
     = ''mixed''"
proof -
  let ?b1 = "\<lparr>reactTimeMs = Some 120, reactComponentTrackEvents = Some 9,
               cadence = Some churning\<rparr>"
  let ?a1 = "\<lparr>reactTimeMs = Some 40, reactComponentTrackEvents = Some 9,
               cadence = Some steady\<rparr>"
  let ?r = "\<lparr>reactTimeMs = Some 40, reactComponentTrackEvents = None,
              cadence = Some steady\<rparr>"
  have h1: "\<not> (primaryDecreased ?b1 ?a1 \<and> churnNewlyAppeared ?b1 ?a1)"
    by (simp add: churnNewlyAppeared_def)
  have d1: "primaryDecreased ?b1 ?a1 \<and> \<not> churnOf ?a1"
    by (simp add: primaryDecreased_def beforePrimary_def afterPrimary_def
        hasDurationSignal_def numberOr0_def)
  have h2: "\<not> (primaryDecreased ?r ?r \<and> churnNewlyAppeared ?r ?r)"
    by (simp add: churnNewlyAppeared_def)
  have e2: "beforePrimary ?r ?r = afterPrimary ?r ?r"
    by (simp add: beforePrimary_def afterPrimary_def)
  from compareReports_verdict_cases [OF h1] d1
  have "compareReports_verdict ?b1 ?a1 = ''improved''" by blast
  moreover from compareReports_verdict_cases [OF h2] e2
  have "compareReports_verdict ?r ?r = ''mixed''" by blast
  ultimately show ?thesis by simp
qed

subsection \<open>Cadence detector\<close>












subsection \<open>Commit duration\<close>

text \<open>
  C7: the fallback to the per-fiber actual durations does not sum them. With no explicit
  duration and no self durations, a commit whose actual durations are the pair list
  \<open>[[2, 5]]\<close> gets the duration 0 although the durations sum to 5; written flat as
  \<open>[2, 5]\<close>, the fiber id is added to the duration and the commit gets 7.
\<close>

theorem commitDurationMs_actual_fallback_wrong:
  "commitDurationMs
     \<lparr>duration = None, actualDuration = None, commitDuration = None,
      fiberSelfDurations = JArr [],
      fiberActualDurations = JArr [JArr [JNum 2, JNum 5]]\<rparr> = 0
   \<and> actualDurationsTotal
     \<lparr>duration = None, actualDuration = None, commitDuration = None,
      fiberSelfDurations = JArr [],
      fiberActualDurations = JArr [JArr [JNum 2, JNum 5]]\<rparr> = 5
   \<and> commitDurationMs
     \<lparr>duration = None, actualDuration = None, commitDuration = None,
      fiberSelfDurations = JArr [],
      fiberActualDurations = JArr [JNum 2, JNum 5]\<rparr> = 7"
  by (simp add: commitDurationMs_def resolveDurationMs_def normalizePairEntries_def
      sumNumericArray_def finiteOr0_def actualDurationsTotal_def round_num_def)

subsection \<open>Hotspot list\<close>

lemma set_insertBy: "set (insertBy cmp x ys) = insert x (set ys)"
  by (induction ys) auto

lemma mset_insertBy: "mset (insertBy cmp x ys) = add_mset x (mset ys)"
  by (induction ys) auto

lemma mset_sortBy: "mset (sortBy cmp xs) = mset xs"
  by (induction xs) (simp_all add: sortBy_def mset_insertBy)

lemma length_sortBy: "length (sortBy cmp xs) = length xs"
  by (metis mset_sortBy size_mset)

lemma ranksBefore_iff:
  "ranksBefore a b =
     (hs_totalMs b < hs_totalMs a \<or> (hs_totalMs b = hs_totalMs a \<and> hs_count b \<le> hs_count a))"
  by (auto simp add: ranksBefore_def hotspotOrder_def)

lemma ranksBefore_trans: "ranksBefore a b \<Longrightarrow> ranksBefore b c \<Longrightarrow> ranksBefore a c"
  by (auto simp add: ranksBefore_iff)

lemma ranksBefore_total: "\<not> ranksBefore a b \<Longrightarrow> ranksBefore b a"
  by (auto simp add: ranksBefore_iff)

lemma sorted_insertBy:
  "sorted_wrt ranksBefore ys \<Longrightarrow> sorted_wrt ranksBefore (insertBy hotspotOrder x ys)"
proof (induction ys)
  case Nil
  then show ?case by simp
next
  case (Cons y ys)
  show ?case
  proof (cases "hotspotOrder x y \<le> 0")
    case True
    then have "ranksBefore x y" by (simp add: ranksBefore_def)
    with Cons.prems have "\<forall>z\<in>set (y # ys). ranksBefore x z"
      by (auto intro: ranksBefore_trans)
    with True Cons.prems show ?thesis by simp
  next
    case False
    then have "ranksBefore y x"
      using ranksBefore_total [of x y] by (simp add: ranksBefore_def)
    with False Cons show ?thesis by (auto simp add: set_insertBy)
  qed
qed

lemma sorted_sortBy: "sorted_wrt ranksBefore (sortBy hotspotOrder xs)"
  by (induction xs) (simp_all add: sortBy_def sorted_insertBy)

lemma sorted_wrt_take_drop:
  "sorted_wrt P xs \<Longrightarrow> \<forall>k\<in>set (take n xs). \<forall>d\<in>set (drop n xs). P k d"
  by (metis append_take_drop_id sorted_wrt_append)

lemma distinct_take_drop:
  assumes "distinct (map f xs)"
  shows "\<forall>d\<in>set (drop n xs). f d \<notin> f ` set (take n xs)"
proof -
  from assms have "distinct (map f (take n xs) @ map f (drop n xs))"
    by (simp flip: map_append)
  then show ?thesis by auto
qed

lemma hs_name_toHotspot: "map hs_name (map toHotspot aggs) = map agg_name aggs"
  by (simp add: toHotspot_def)

lemma distinct_names_sortBy:
  assumes "distinct (map agg_name aggs)"
  shows "distinct (map hs_name (sortBy hotspotOrder (map toHotspot aggs)))"
proof -
  have "mset (map hs_name (sortBy hotspotOrder (map toHotspot aggs))) =
        image_mset hs_name (mset (sortBy hotspotOrder (map toHotspot aggs)))"
    by simp
  also have "\<dots> = image_mset hs_name (mset (map toHotspot aggs))"
    by (simp only: mset_sortBy)
  also have "\<dots> = mset (map agg_name aggs)"
    by (simp add: multiset.map_comp comp_def toHotspot_def)
  finally have "mset (map hs_name (sortBy hotspotOrder (map toHotspot aggs))) =
        mset (map agg_name aggs)" .
  with assms show ?thesis
    by (metis mset_eq_imp_distinct_iff)
qed

text \<open>
  C10: the hotspot list of a report has at most 25 entries, namely the first 25 of the
  aggregates sorted by total time descending with the count as tie-breaker. The list and
  the dropped rest together are the aggregates; every dropped aggregate ranks after every
  reported one, and, the names of the aggregates being distinct, its name does not occur
  in the report.
\<close>

theorem hotspots_top_25:
  "length (hotspots aggs) = min 25 (length aggs)
   \<and> sorted_wrt ranksBefore (hotspots aggs)
   \<and> mset (hotspots aggs @ droppedHotspots aggs) = mset (map toHotspot aggs)
   \<and> (\<forall>k\<in>set (hotspots aggs). \<forall>d\<in>set (droppedHotspots aggs). ranksBefore k d)
   \<and> (distinct (map agg_name aggs) \<longrightarrow>
        (\<forall>d\<in>set (droppedHotspots aggs). hs_name d \<notin> hs_name ` set (hotspots aggs)))"
proof -
  let ?all = "sortBy hotspotOrder (map toHotspot aggs)"
  have "length (hotspots aggs) = min 25 (length aggs)"
    by (simp add: hotspots_def length_sortBy min.commute)
  moreover have "sorted_wrt ranksBefore (hotspots aggs)"
    unfolding hotspots_def by (metis sorted_sortBy sorted_wrt_take)
  moreover have "mset (hotspots aggs @ droppedHotspots aggs) = mset (map toHotspot aggs)"
    unfolding hotspots_def droppedHotspots_def
    by (simp only: append_take_drop_id mset_sortBy)
  moreover have "\<forall>k\<in>set (hotspots aggs). \<forall>d\<in>set (droppedHotspots aggs). ranksBefore k d"
    unfolding hotspots_def droppedHotspots_def
    by (rule sorted_wrt_take_drop) (rule sorted_sortBy)
  moreover have "\<forall>d\<in>set (droppedHotspots aggs). hs_name d \<notin> hs_name ` set (hotspots aggs)"
    if "distinct (map agg_name aggs)"
    unfolding hotspots_def droppedHotspots_def
    by (rule distinct_take_drop) (rule distinct_names_sortBy [OF that])
  ultimately show ?thesis by blast
qed

lemma droppedHotspots_example:
  "droppedHotspots (map exampleAggregate [0..<26]) = [toHotspot (exampleAggregate 0)]"
  by (simp add: droppedHotspots_def sortBy_def upt_rec hotspotOrder_def toHotspot_def
      exampleAggregate_def round_num_def)

lemma distinct_names_example: "distinct (map agg_name (map exampleAggregate [0..<26]))"
  by (simp add: upt_rec exampleAggregate_def)

theorem hotspots_top_25_witness:
  "length (hotspots (map exampleAggregate [0..<26])) = 25
   \<and> hs_name (toHotspot (exampleAggregate 0))
       \<notin> hs_name ` set (hotspots (map exampleAggregate [0..<26]))"
  using hotspots_top_25 [of "map exampleAggregate [0..<26]"]
    droppedHotspots_example distinct_names_example
  by simp

subsection \<open>Tree model: add followed by remove\<close>

lemma mapGet_updateNode:
  "mapGet (updateNode k f m) k' = (if k' = k then map_option f (mapGet m k) else mapGet m k')"
  by (induction m) (auto simp add: mapGet_def updateNode_def)

lemma mapGet_mapSet: "mapGet (mapSet k v m) k' = (if k' = k then Some v else mapGet m k')"
  by (induction m) (auto simp add: mapGet_def)

lemma mapGet_mapDelete: "mapGet (mapDelete k m) k' = (if k' = k then None else mapGet m k')"
  by (induction m) (auto simp add: mapGet_def mapDelete_def)

lemmas mapGet_simps = mapGet_updateNode mapGet_mapSet mapGet_mapDelete

lemma filter_absent: "fid \<notin> set cs \<Longrightarrow> filter (\<lambda>c. c \<noteq> fid) cs = cs"
  by (induction cs) auto

lemma addNode_parent_children:
  assumes "mapGet m p = Some pn" "fid \<notin> set (children pn)" "fid \<noteq> p"
  shows "\<exists>pn'. mapGet (addNode fid ty (Some p) dn k m) p = Some pn' \<and>
               children pn' = children pn @ [fid]"
    and "\<exists>n. mapGet (addNode fid ty (Some p) dn k m) fid = Some n \<and> parentID n = p"
  using assms
  by (auto simp add: addNode_def Let_def mapGet_simps removeChild_def filter_absent
      split: option.splits)

lemma removeNode_parent_children:
  assumes "mapGet m fid = Some n" "parentID n = p" "mapGet m p = Some pn" "fid \<noteq> p"
  shows "map_option children (mapGet (removeNode fid m) p)
           = Some (filter (\<lambda>c. c \<noteq> fid) (children pn))"
  using assms by (simp add: removeNode_def mapGet_simps removeChild_def)

lemma removeNode_addNode_children:
  assumes "mapGet m p = Some pn" "fid \<notin> set (children pn)" "fid \<noteq> p"
  shows "map_option children (mapGet (removeNode fid (addNode fid ty (Some p) dn k m)) p)
           = Some (children pn)"
proof -
  from addNode_parent_children [OF assms, of ty dn k]
  obtain pn' n where
    "mapGet (addNode fid ty (Some p) dn k m) p = Some pn'" "children pn' = children pn @ [fid]"
    "mapGet (addNode fid ty (Some p) dn k m) fid = Some n" "parentID n = p"
    by blast
  with removeNode_parent_children [of "addNode fid ty (Some p) dn k m" fid n p pn'] assms
  show ?thesis by (auto simp add: filter_absent)
qed

text \<open>The decoder on the record of one add and one remove: both are applied, in order.\<close>

lemma applyOperations_addThenRemove:
  "ty \<noteq> 11 \<Longrightarrow>
   applyOperationsToCommitTree t (addThenRemove fid ty p) ws =
     Inr (t\<lparr>nodes := removeNode fid (addNode fid (Some ty) (Some p) None None (nodes t))\<rparr>, ws)"
  apply (simp add: applyOperationsToCommitTree_def addThenRemove_def)
  apply (subst stringTableLoop.simps)
  apply simp
  apply (subst operationsLoop.simps)
  apply (simp add: loopRunning_def loopBody_def applyOperation_def treeOperationAdd_def
      opAt_def stringAt_def setNodes_def)
  apply (subst operationsLoop.simps)
  apply (simp add: loopRunning_def loopBody_def applyOperation_def treeOperationRemove_def
      opAt_def setNodes_def)
  apply (subst operationsLoop.simps)
  apply (simp add: loopRunning_def)
  done

text \<open>
  C6, as the specification states it, fails when the id is already a child of the parent:
  in the tree of root 1 with the child 2, adding 2 under 1 and removing 2 leaves the
  children list of 1 empty, where it was the list of 2 before.
\<close>

theorem add_then_remove_existing_child_counterexample:
  "childrenOf exampleTree 1 = Some [2]
   \<and> applyOperationsToCommitTree exampleTree (addThenRemove 2 5 1) [] =
       Inr (\<lparr>rootID = 1, nodes = [(1, exampleNode 1 0 [])]\<rparr>, [])
   \<and> childrenOf \<lparr>rootID = 1, nodes = [(1, exampleNode 1 0 [])]\<rparr> 1 = Some []"
  by (simp add: applyOperations_addThenRemove childrenOf_def exampleTree_def exampleNode_def
      mapGet_def removeNode_def addNode_def updateNode_def removeChild_def mapDelete_def)

text \<open>
  C6 (amended): for a parent that is present in the tree and an id that differs from the
  parent and is not in the parent's children list, replaying the add of the id under the
  parent (of a type other than the root type) immediately followed by the remove of the
  id leaves the parent's children list exactly as it was before the add; the warning set
  is unchanged and no fault is raised.
\<close>

theorem add_then_remove_restores_children:
  assumes "childrenOf t p = Some cs" "fid \<notin> set cs" "fid \<noteq> p" "ty \<noteq> 11"
  shows "\<exists>t'. applyOperationsToCommitTree t (addThenRemove fid ty p) ws = Inr (t', ws) \<and>
              childrenOf t' p = Some cs"
proof -
  from assms(1) obtain pn where pn: "mapGet (nodes t) p = Some pn" "children pn = cs"
    by (auto simp add: childrenOf_def)
  with assms have "map_option children
      (mapGet (removeNode fid (addNode fid (Some ty) (Some p) None None (nodes t))) p) = Some cs"
    using removeNode_addNode_children [of "nodes t" p pn fid] by simp
  with applyOperations_addThenRemove [OF assms(4), of t fid p ws] show ?thesis
    by (simp add: childrenOf_def)
qed

theorem add_then_remove_restores_children_witness:
  "\<exists>t'. applyOperationsToCommitTree exampleTree (addThenRemove 3 5 1) [] = Inr (t', []) \<and>
         childrenOf t' 1 = Some [2]"
proof -
  have "childrenOf exampleTree 1 = Some [2]"
    by (simp add: childrenOf_def exampleTree_def exampleNode_def mapGet_def)
  from add_then_remove_restores_children [OF this, of 3 5 "[]"] show ?thesis by simp
qed

subsection \<open>Decoder: unknown operation codes\<close>

lemma warningSet_setNodes [simp]: "warningSet (setNodes m s) = warningSet s"
  by (simp add: setNodes_def)

lemma warningSet_warn [simp]: "warningSet (warn w s) = addWarningOnce (warningSet s) w"
  by (simp add: warn_def)

lemma warningsExtend_refl [simp]: "warningsExtend ws ws"
  by (simp add: warningsExtend_def)

lemma warningsExtend_add [simp]: "warningsExtend ws (addWarningOnce ws w)"
  by (auto simp add: warningsExtend_def addWarningOnce_def)

lemma warningsExtend_trans: "warningsExtend a b \<Longrightarrow> warningsExtend b c \<Longrightarrow> warningsExtend a c"
  by (auto simp add: warningsExtend_def)

lemma applyOperation_warnings:
  "warningsExtend (warningSet s) (warningSet (applyOperation operations stringTable i operation s))"
  by (simp add: applyOperation_def treeOperationAdd_def treeOperationRemove_def
      treeOperationReorder_def treeOperationUpdateDuration_def Let_def
      split: option.splits prod.splits)

lemma loopBody_warnings:
  "warningsExtend (warningSet s) (warningSet (loopBody operations stringTable s))"
  by (simp add: loopBody_def applyOperation_warnings split: option.splits)

lemma operationsLoop_warnings:
  "warningsExtend (warningSet s) (warningSet (operationsLoop operations stringTable s))"
proof (induction operations stringTable s rule: operationsLoop.induct)
  case (1 operations stringTable s)
  show ?case
  proof (cases "loopRunning operations s")
    case True
    with 1 have "warningsExtend (warningSet (loopBody operations stringTable s))
        (warningSet (operationsLoop operations stringTable s))"
      by (subst operationsLoop.simps) simp
    with loopBody_warnings show ?thesis by (rule warningsExtend_trans)
  next
    case False
    then show ?thesis by (subst operationsLoop.simps) simp
  qed
qed

lemma count_distinct_member: "distinct ws \<Longrightarrow> w \<in> set ws \<Longrightarrow> count_list ws w = 1"
  by (induction ws) (auto simp add: count_list_0_iff)

text \<open>
  C8: when the code at the cursor is none of the known operation codes, the round of the
  main loop changes nothing but the warning set, to which it adds the diagnostic of that
  code once, and the cursor, which it advances by exactly one; the loop goes on from
  there and returns (the loop raises no fault), and the diagnostic is in the warning set
  at the end, exactly once when the set had no duplicates.
\<close>

theorem unknown_operation_skipped:
  assumes "cursor s = Some i" "i < length operations" "\<not> knownOperation (operations ! i)"
  shows "loopBody operations stringTable s =
           s\<lparr>cursor := Some (i + 1),
             warningSet := addWarningOnce (warningSet s) (UnknownOperation (operations ! i))\<rparr>
       \<and> operationsLoop operations stringTable s =
           operationsLoop operations stringTable (loopBody operations stringTable s)
       \<and> UnknownOperation (operations ! i)
            \<in> set (warningSet (operationsLoop operations stringTable s))
       \<and> (distinct (warningSet s) \<longrightarrow>
            count_list (warningSet (loopBody operations stringTable s))
              (UnknownOperation (operations ! i)) = 1 \<and>
            count_list (warningSet (operationsLoop operations stringTable s))
              (UnknownOperation (operations ! i)) = 1)"
proof -
  let ?w = "UnknownOperation (operations ! i)"
  let ?s' = "loopBody operations stringTable s"
  from assms have body: "?s' = s\<lparr>cursor := Some (i + 1),
             warningSet := addWarningOnce (warningSet s) ?w\<rparr>"
    by (simp add: loopBody_def applyOperation_def knownOperation_def warn_def)
  from assms have "loopRunning operations s"
    by (simp add: loopRunning_def)
  then have loop: "operationsLoop operations stringTable s =
      operationsLoop operations stringTable ?s'"
    by (subst operationsLoop.simps) simp
  have mem: "?w \<in> set (warningSet ?s')"
    unfolding body by (simp add: addWarningOnce_def)
  have ext: "warningsExtend (warningSet ?s')
      (warningSet (operationsLoop operations stringTable s))"
    unfolding loop by (rule operationsLoop_warnings)
  from mem ext have fin: "?w \<in> set (warningSet (operationsLoop operations stringTable s))"
    by (auto simp add: warningsExtend_def)
  have "count_list (warningSet ?s') ?w = 1 \<and>
        count_list (warningSet (operationsLoop operations stringTable s)) ?w = 1"
    if d: "distinct (warningSet s)"
  proof -
    from d have d': "distinct (warningSet ?s')"
      using loopBody_warnings [of s operations stringTable] by (simp add: warningsExtend_def)
    with ext have "distinct (warningSet (operationsLoop operations stringTable s))"
      by (simp add: warningsExtend_def)
    with d' mem fin show ?thesis by (simp add: count_distinct_member)
  qed
  with body loop fin show ?thesis by blast
qed

theorem unknown_operation_skipped_witness:
  "cursor (loopBody [1, 1, 0, 6, 13, 0] [None]
             \<lparr>tree = exampleTree, warningSet = [], cursor = Some 3\<rparr>) = Some 4
   \<and> count_list
       (warningSet (operationsLoop [1, 1, 0, 6, 13, 0] [None]
                      \<lparr>tree = exampleTree, warningSet = [], cursor = Some 3\<rparr>))
       (UnknownOperation 6) = 1"
proof -
  let ?s = "\<lparr>tree = exampleTree, warningSet = [], cursor = Some 3\<rparr>"
  have h: "cursor ?s = Some 3" "3 < length [1, 1, 0, 6, 13, 0 :: int]"
    "\<not> knownOperation ([1, 1, 0, 6, 13, 0] ! 3)" "distinct (warningSet ?s)"
    by (simp_all add: knownOperation_def)
  note u = unknown_operation_skipped [OF h(1-3), of "[None]"]
  have "cursor (loopBody [1, 1, 0, 6, 13, 0] [None] ?s) = Some 4"
    by (simp add: u [THEN conjunct1])
  moreover have "count_list
       (warningSet (operationsLoop [1, 1, 0, 6, 13, 0] [None] ?s)) (UnknownOperation 6) = 1"
    using u [THEN conjunct2, THEN conjunct2, THEN conjunct2, THEN mp, OF h(4), THEN conjunct2]
    by simp
  ultimately show ?thesis by (rule conjI)
qed

subsection \<open>Decoder: termination of the main loop\<close>









subsection \<open>Commit analyzer: subtree durations\<close>







lemma memoGrows_refl [simp]: "memoGrows m m"
  by (simp add: memoGrows_def)

lemma memoGrows_trans: "memoGrows a b \<Longrightarrow> memoGrows b c \<Longrightarrow> memoGrows a c"
  by (simp add: memoGrows_def)

lemma newBelow_refl [simp]: "newBelow rank b m m"
  by (simp add: newBelow_def)

lemma newBelow_trans:
  "newBelow rank b m1 m2 \<Longrightarrow> newBelow rank b m2 m3 \<Longrightarrow> newBelow rank b m1 m3"
  unfolding newBelow_def by (metis)

lemma newBelow_mono: "newBelow rank b m1 m2 \<Longrightarrow> b \<le> b' \<Longrightarrow> newBelow rank b' m1 m2"
  unfolding newBelow_def by (meson less_le_trans)

lemma getOr0_grows:
  "memoGrows m m' \<Longrightarrow> mapGet m c \<noteq> None \<Longrightarrow> getOr0 m' c = getOr0 m c"
  by (auto simp add: memoGrows_def getOr0_def)

lemma sum_grows:
  "memoGrows m m' \<Longrightarrow> \<forall>c\<in>set cs. mapGet m c \<noteq> None \<Longrightarrow>
   sum_list (map (getOr0 m') cs) = sum_list (map (getOr0 m) cs)"
  by (induction cs) (simp_all add: getOr0_grows)

lemma memoClosed_set:
  assumes cl: "memoClosed ch selfByFiber m"
    and fresh: "mapGet m fid = None"
    and kids: "\<forall>c\<in>set (childrenOr ch fid). mapGet m c \<noteq> None"
    and v: "v = getOr0 selfByFiber fid + sum_list (map (getOr0 m) (childrenOr ch fid))"
  shows "memoClosed ch selfByFiber (mapSet fid v m)"
proof -
  have g: "memoGrows m (mapSet fid v m)"
    using fresh by (auto simp add: memoGrows_def mapGet_mapSet)
  show ?thesis
    unfolding memoClosed_def
  proof (intro allI impI)
    fix f w
    assume a: "mapGet (mapSet fid v m) f = Some w"
    show "w = getOr0 selfByFiber f + sum_list (map (getOr0 (mapSet fid v m)) (childrenOr ch f)) \<and>
          (\<forall>c\<in>set (childrenOr ch f). mapGet (mapSet fid v m) c \<noteq> None)"
    proof (cases "f = fid")
      case True
      with a have "w = v" by (simp add: mapGet_mapSet)
      with True v kids sum_grows [OF g, of "childrenOr ch fid"] show ?thesis
        by (auto simp add: mapGet_mapSet)
    next
      case False
      with a have "mapGet m f = Some w" by (simp add: mapGet_mapSet)
      with cl have "w = getOr0 selfByFiber f + sum_list (map (getOr0 m) (childrenOr ch f))"
        "\<forall>c\<in>set (childrenOr ch f). mapGet m c \<noteq> None"
        by (auto simp add: memoClosed_def)
      with sum_grows [OF g, of "childrenOr ch f"] show ?thesis
        by (auto simp add: mapGet_mapSet)
    qed
  qed
qed

lemma compute_closed:
  shows "ranked ch rank \<Longrightarrow> memoClosed ch selfByFiber memo \<Longrightarrow>
           \<forall>l\<in>lineage. rank fid < rank l \<Longrightarrow>
           memoClosed ch selfByFiber (snd (computeSubtreeMs ch selfByFiber fid lineage memo)) \<and>
           mapGet (snd (computeSubtreeMs ch selfByFiber fid lineage memo)) fid
             = Some (fst (computeSubtreeMs ch selfByFiber fid lineage memo)) \<and>
           memoGrows memo (snd (computeSubtreeMs ch selfByFiber fid lineage memo)) \<and>
           newBelow rank (Suc (rank fid)) memo
             (snd (computeSubtreeMs ch selfByFiber fid lineage memo))"
    and "ranked ch rank \<Longrightarrow> memoClosed ch selfByFiber memo \<Longrightarrow>
           \<forall>c\<in>set cs. rank c < b \<and> (\<forall>l\<in>lineage. rank c < rank l) \<Longrightarrow>
           memoClosed ch selfByFiber (snd (sumChildren ch selfByFiber cs lineage t memo)) \<and>
           (\<forall>c\<in>set cs. mapGet (snd (sumChildren ch selfByFiber cs lineage t memo)) c \<noteq> None) \<and>
           fst (sumChildren ch selfByFiber cs lineage t memo)
             = t + sum_list (map (getOr0 (snd (sumChildren ch selfByFiber cs lineage t memo))) cs) \<and>
           memoGrows memo (snd (sumChildren ch selfByFiber cs lineage t memo)) \<and>
           newBelow rank b memo (snd (sumChildren ch selfByFiber cs lineage t memo))"
proof (induction ch selfByFiber fid lineage memo and ch selfByFiber cs lineage t memo
       arbitrary: and b rule: computeSubtreeMs_sumChildren.induct)
  case (1 ch selfByFiber fid lineage memo)
  show ?case
  proof (cases "mapGet memo fid")
    case (Some v)
    with 1(3) show ?thesis
      by (subst (1 2 3 4 5) computeSubtreeMs.simps) simp
  next
    case None
    from 1(4) have notin: "fid \<notin> lineage" by auto
    show ?thesis
    proof (cases "mapGet ch fid")
      case n: None
      then have kids: "childrenOr ch fid = []" by (simp add: childrenOr_def)
      have r: "computeSubtreeMs ch selfByFiber fid lineage memo =
          (getOr0 selfByFiber fid, mapSet fid (getOr0 selfByFiber fid) memo)"
        using None notin n by (subst computeSubtreeMs.simps) simp
      have "memoClosed ch selfByFiber (mapSet fid (getOr0 selfByFiber fid) memo)"
        by (rule memoClosed_set [OF 1(3) None]) (simp_all add: kids)
      with None show ?thesis
        unfolding r by (auto simp add: mapGet_mapSet memoGrows_def newBelow_def)
    next
      case (Some cs)
      then have kids: "childrenOr ch fid = cs" by (simp add: childrenOr_def)
      obtain v m where s: "sumChildren ch selfByFiber cs (insert fid lineage)
            (getOr0 selfByFiber fid) memo = (v, m)"
        by (cases "sumChildren ch selfByFiber cs (insert fid lineage)
            (getOr0 selfByFiber fid) memo")
      have r: "computeSubtreeMs ch selfByFiber fid lineage memo = (v, mapSet fid v m)"
        using None notin Some s by (subst computeSubtreeMs.simps) simp
      have pre: "\<forall>c\<in>set cs. rank c < rank fid \<and> (\<forall>l\<in>insert fid lineage. rank c < rank l)"
        using 1(2,4) kids by (auto simp add: ranked_def intro: less_trans)
      from 1(1) [OF None notin Some 1(2) 1(3) pre] s
      have m: "memoClosed ch selfByFiber m" "\<forall>c\<in>set cs. mapGet m c \<noteq> None"
        "v = getOr0 selfByFiber fid + sum_list (map (getOr0 m) cs)"
        "memoGrows memo m" "newBelow rank (rank fid) memo m"
        by simp_all
      have fresh: "mapGet m fid = None"
      proof (rule ccontr)
        assume "mapGet m fid \<noteq> None"
        with m(5) None have "rank fid < rank fid"
          unfolding newBelow_def by blast
        then show False by simp
      qed
      have "memoClosed ch selfByFiber (mapSet fid v m)"
        by (rule memoClosed_set [OF m(1) fresh]) (simp_all add: kids m)
      moreover have "memoGrows memo (mapSet fid v m)"
        using m(4) None by (auto simp add: memoGrows_def mapGet_mapSet)
      moreover have "newBelow rank (Suc (rank fid)) memo (mapSet fid v m)"
        using m(5) by (auto simp add: newBelow_def mapGet_mapSet less_Suc_eq)
      ultimately show ?thesis
        unfolding r by (simp add: mapGet_mapSet)
    qed
  qed
next
  case (2 ch selfByFiber lineage t memo)
  then show ?case by simp
next
  case (3 ch selfByFiber c cs lineage t memo)
  obtain v m where r: "computeSubtreeMs ch selfByFiber c lineage memo = (v, m)"
    by (cases "computeSubtreeMs ch selfByFiber c lineage memo")
  from 3(5) have c: "\<forall>l\<in>lineage. rank c < rank l" "rank c < b"
    and cs: "\<forall>c\<in>set cs. rank c < b \<and> (\<forall>l\<in>lineage. rank c < rank l)"
    by simp_all
  from 3(1) [OF 3(3) 3(4) c(1)] r
  have m: "memoClosed ch selfByFiber m" "mapGet m c = Some v" "memoGrows memo m"
    "newBelow rank (Suc (rank c)) memo m"
    by simp_all
  let ?r = "sumChildren ch selfByFiber cs lineage (t + v) m"
  from 3(2) [OF r [symmetric] refl 3(3) m(1) cs]
  have n: "memoClosed ch selfByFiber (snd ?r)" "\<forall>c\<in>set cs. mapGet (snd ?r) c \<noteq> None"
    "fst ?r = t + v + sum_list (map (getOr0 (snd ?r)) cs)"
    "memoGrows m (snd ?r)" "newBelow rank b m (snd ?r)"
    by simp_all
  from m(2) n(4) have cv: "mapGet (snd ?r) c = Some v"
    by (simp add: memoGrows_def)
  from c(2) have "Suc (rank c) \<le> b" by simp
  with m(4) have "newBelow rank b memo m"
    by (rule newBelow_mono)
  from this n(5) have "newBelow rank b memo (snd ?r)"
    by (rule newBelow_trans)
  moreover from cv have "getOr0 (snd ?r) c = v"
    by (simp add: getOr0_def)
  moreover from m(3) n(4) have "memoGrows memo (snd ?r)"
    by (rule memoGrows_trans)
  ultimately show ?case
    using n cv r by simp
qed

lemma computedAll_closed:
  "ranked ch rank \<Longrightarrow> memoClosed ch selfByFiber memo \<Longrightarrow>
   memoClosed ch selfByFiber
     (foldl (\<lambda>memo fid. snd (computeSubtreeMs ch selfByFiber fid {} memo)) memo xs) \<and>
   (\<forall>k. mapGet memo k \<noteq> None \<or> k \<in> set xs \<longrightarrow>
      mapGet (foldl (\<lambda>memo fid. snd (computeSubtreeMs ch selfByFiber fid {} memo)) memo xs) k
        \<noteq> None)"
proof (induction xs arbitrary: memo)
  case Nil
  then show ?case by simp
next
  case (Cons x xs)
  let ?m = "snd (computeSubtreeMs ch selfByFiber x {} memo)"
  from compute_closed(1) [OF Cons.prems, of "{}" x]
  have m: "memoClosed ch selfByFiber ?m" "mapGet ?m x \<noteq> None" "memoGrows memo ?m"
    by simp_all
  from Cons.IH [OF Cons.prems(1) m(1)] m(2,3) show ?case
    by (auto simp add: memoGrows_def)
qed

lemma recomputed_closed:
  assumes "ranked (childrenByFiberID t (includedFiberIDs t renderedFibers)) rank"
    and "fid \<in> set (includedFiberIDs t renderedFibers)"
  shows "recomputedSubtreeMs t renderedFibers selfByFiber fid =
           getOr0 selfByFiber fid +
           sum_list (map (recomputedSubtreeMs t renderedFibers selfByFiber)
             (childrenOr (childrenByFiberID t (includedFiberIDs t renderedFibers)) fid))"
proof -
  let ?inc = "includedFiberIDs t renderedFibers"
  let ?ch = "childrenByFiberID t ?inc"
  let ?memo = "computedSubtreeMsByFiberID ?ch selfByFiber ?inc"
  have "memoClosed ?ch selfByFiber []"
    by (simp add: memoClosed_def mapGet_def)
  from computedAll_closed [OF assms(1) this, of ?inc] assms(2)
  have cl: "memoClosed ?ch selfByFiber ?memo" and "mapGet ?memo fid \<noteq> None"
    by (auto simp add: computedSubtreeMsByFiberID_def)
  then obtain v where v: "mapGet ?memo fid = Some v" by auto
  with cl have "v = getOr0 selfByFiber fid + sum_list (map (getOr0 ?memo) (childrenOr ?ch fid))"
    by (auto simp add: memoClosed_def)
  moreover from v have "getOr0 ?memo fid = v"
    by (simp add: getOr0_def)
  ultimately show ?thesis
    by (simp add: recomputedSubtreeMs_def [abs_def])
qed

lemma set_sortBy: "set (sortBy cmp xs) = set xs"
  by (metis mset_sortBy set_mset_mset)

lemma flamegraph_node:
  assumes "n \<in> set (buildCommitFlamegraph t renderedFibers actualByFiber selfByFiber)"
  shows "fiberId n \<in> set (includedFiberIDs t renderedFibers)"
    and "childrenFiberIds n =
           childrenOr (childrenByFiberID t (includedFiberIDs t renderedFibers)) (fiberId n)"
    and "selfMs n = round_num (getOr0 selfByFiber (fiberId n)) 2"
    and "subtreeMs n = round_num (getOr0 actualByFiber (fiberId n)) 2"
    and "computedSubtreeMs n =
           round_num (recomputedSubtreeMs t renderedFibers selfByFiber (fiberId n)) 2"
  using assms
  by (auto simp add: buildCommitFlamegraph_def Let_def set_sortBy recomputedSubtreeMs_def)

lemma round_num_0 [simp]: "round_num 0 d = 0"
  by (simp add: round_num_def)

lemma lineage_guard:
  "mapGet memo fid = None \<Longrightarrow> fid \<in> lineage \<Longrightarrow>
   computeSubtreeMs ch selfByFiber fid lineage memo = (getOr0 selfByFiber fid, memo)"
  by (subst computeSubtreeMs.simps) simp

text \<open>A cycle in the children lists: the recomputation returns, the revisited fiber counts once.\<close>

lemma computeSubtreeMs_cycle_example: "computedSubtreeMsByFiberID [(1, [2]), (2, [1])] [(1, 1), (2, 5)] [1, 2] = [(2, 6), (1, 7)]"
  by code_simp





text \<open>
  C3, as the specification states it, fails for a node without an explicit actual
  duration: with the actual duration 5 for fiber 2 only and the self durations 1 and 5,
  the root 1 is reported with subtreeMs 0, not with the recomputed 6 (its selfMs 1 plus
  the subtreeMs 5 of its child); the recomputed value is in computedSubtreeMs.
\<close>

theorem subtreeMs_not_recomputed_counterexample:
  "fiberId (buildCommitFlamegraph exampleTree [2, 1] [(2, 5)] [(1, 1), (2, 5)] ! 0) = 1
   \<and> mapGet [(2, 5 :: real)] 1 = None
   \<and> childrenFiberIds (buildCommitFlamegraph exampleTree [2, 1] [(2, 5)] [(1, 1), (2, 5)] ! 0)
       = [2]
   \<and> fiberId (buildCommitFlamegraph exampleTree [2, 1] [(2, 5)] [(1, 1), (2, 5)] ! 1) = 2
   \<and> selfMs (buildCommitFlamegraph exampleTree [2, 1] [(2, 5)] [(1, 1), (2, 5)] ! 0) = 1
   \<and> subtreeMs (buildCommitFlamegraph exampleTree [2, 1] [(2, 5)] [(1, 1), (2, 5)] ! 1) = 5
   \<and> subtreeMs (buildCommitFlamegraph exampleTree [2, 1] [(2, 5)] [(1, 1), (2, 5)] ! 0) = 0
   \<and> computedSubtreeMs
        (buildCommitFlamegraph exampleTree [2, 1] [(2, 5)] [(1, 1), (2, 5)] ! 0) = 6"
  by code_simp

text \<open>
  C3 (amended): for every node of a commit flamegraph, subtreeMs is the explicit
  per-fiber actual duration, rounded, when one is present, and 0 otherwise. The
  recomputed value is exposed beside it as computedSubtreeMs, rounded; when the children
  lists of the included set have no cycle, it is the self duration of the fiber plus the
  sum of the recomputed values of its children within the included set. The
  recomputation tracks the lineage of the recursion: a fiber that is met again inside its
  own lineage contributes its self duration only, and nothing is recorded for it.
\<close>

theorem subtreeMs_explicit_computed_beside:
  "(\<forall>n\<in>set (buildCommitFlamegraph t renderedFibers actualByFiber selfByFiber).
      subtreeMs n =
        (case mapGet actualByFiber (fiberId n) of None \<Rightarrow> 0 | Some a \<Rightarrow> round_num a 2)
    \<and> computedSubtreeMs n =
        round_num (recomputedSubtreeMs t renderedFibers selfByFiber (fiberId n)) 2
    \<and> (ranked (childrenByFiberID t (includedFiberIDs t renderedFibers)) rank \<longrightarrow>
        recomputedSubtreeMs t renderedFibers selfByFiber (fiberId n) =
          getOr0 selfByFiber (fiberId n) +
          sum_list (map (recomputedSubtreeMs t renderedFibers selfByFiber)
            (childrenFiberIds n))))
   \<and> (\<forall>ch fid lineage memo. mapGet memo fid = None \<longrightarrow> fid \<in> lineage \<longrightarrow>
        computeSubtreeMs ch selfByFiber fid lineage memo = (getOr0 selfByFiber fid, memo))"
proof (intro conjI ballI)
  fix n
  assume n: "n \<in> set (buildCommitFlamegraph t renderedFibers actualByFiber selfByFiber)"
  note f = flamegraph_node [OF n]
  show "subtreeMs n =
      (case mapGet actualByFiber (fiberId n) of None \<Rightarrow> 0 | Some a \<Rightarrow> round_num a 2)"
    by (simp add: f getOr0_def split: option.splits)
  show "computedSubtreeMs n =
      round_num (recomputedSubtreeMs t renderedFibers selfByFiber (fiberId n)) 2"
    by (rule f)
  show "ranked (childrenByFiberID t (includedFiberIDs t renderedFibers)) rank \<longrightarrow>
        recomputedSubtreeMs t renderedFibers selfByFiber (fiberId n) =
          getOr0 selfByFiber (fiberId n) +
          sum_list (map (recomputedSubtreeMs t renderedFibers selfByFiber)
            (childrenFiberIds n))"
    using recomputed_closed [OF _ f(1), of rank selfByFiber] by (simp add: f(2))
next
  show "\<forall>ch fid lineage memo. mapGet memo fid = None \<longrightarrow> fid \<in> lineage \<longrightarrow>
        computeSubtreeMs ch selfByFiber fid lineage memo = (getOr0 selfByFiber fid, memo)"
    by (simp add: lineage_guard)
qed

lemma childrenByFiberID_example: "childrenByFiberID exampleTree (includedFiberIDs exampleTree [2, 1]) = [(1, [2]), (2, [])]"
  by code_simp

lemma ranked_example: "ranked (childrenByFiberID exampleTree (includedFiberIDs exampleTree [2, 1])) exampleRank"
  by (auto simp add: ranked_def childrenByFiberID_example childrenOr_def mapGet_def exampleRank_def split: if_splits)

lemma flamegraph_example_partial: "buildCommitFlamegraph exampleTree [2, 1] [(2, 5)] [(1, 1), (2, 5)] =
  [\<lparr>fiberId = 1, parentFiberId = 0, childrenFiberIds = [2], depth = 0, selfMs = 1,
    subtreeMs = 0, computedSubtreeMs = 6\<rparr>,
   \<lparr>fiberId = 2, parentFiberId = 1, childrenFiberIds = [], depth = 1, selfMs = 5,
    subtreeMs = 5, computedSubtreeMs = 5\<rparr>]"
  by code_simp

theorem subtreeMs_explicit_computed_beside_witness:
  "recomputedSubtreeMs exampleTree [2, 1] [(1, 1), (2, 5)] 1 =
     1 + recomputedSubtreeMs exampleTree [2, 1] [(1, 1), (2, 5)] 2
   \<and> computeSubtreeMs [(1, [2]), (2, [1])] [(1, 1), (2, 5)] 1 {1, 2} [] = (1, [])"
proof -
  let ?ns = "buildCommitFlamegraph exampleTree [2, 1] [(2, 5)] [(1, 1), (2, 5)]"
  have mem: "hd ?ns \<in> set ?ns" by (simp add: flamegraph_example_partial)
  note t = subtreeMs_explicit_computed_beside [of exampleTree "[2, 1]" "[(2, 5)]" "[(1, 1), (2, 5)]" exampleRank]
  from t [THEN conjunct1, THEN bspec, OF mem] ranked_example
  have "recomputedSubtreeMs exampleTree [2, 1] [(1, 1), (2, 5)] (fiberId (hd ?ns)) =
          getOr0 [(1, 1), (2, 5)] (fiberId (hd ?ns)) +
          sum_list (map (recomputedSubtreeMs exampleTree [2, 1] [(1, 1), (2, 5)])
            (childrenFiberIds (hd ?ns)))"
    by blast
  then have a: "recomputedSubtreeMs exampleTree [2, 1] [(1, 1), (2, 5)] 1 =
     1 + recomputedSubtreeMs exampleTree [2, 1] [(1, 1), (2, 5)] 2"
    by (simp add: flamegraph_example_partial getOr0_def mapGet_def)
  have g: "mapGet ([] :: real jsmap) 1 = None" "(1::int) \<in> {1, 2}"
    by (simp_all add: mapGet_def)
  from t [THEN conjunct2, rule_format, OF g]
  have "computeSubtreeMs [(1, [2]), (2, [1])] [(1, 1), (2, 5)] 1 {1, 2} [] = (1, [])"
    by (simp add: getOr0_def mapGet_def)
  with a show ?thesis by (rule conjI)
qed

end
